theory Spec2Isabelle
  imports Complex_Main "HOL-Library.AList" "HOL-Library.Char_ord" "HOL-Library.List_Lexorder"
    "HOL-Library.Sublist"
begin

section \<open>Exceptions and results\<close>

text \<open>
  Exception classes, as values. \<open>ValueError\<close>, \<open>KeyError\<close> and \<open>ZeroDivisionError\<close> are the
  Python exceptions the scheduler can raise, and \<open>SystemExit\<close> is what the builtin \<open>exit()\<close>
  raises. \<open>ConfigurationError\<close> and \<open>SchedulingInfeasible\<close> are the two classes the
  specification names; the source defines neither and no function below returns them.
  A function that can raise returns \<open>error + 'a\<close>, with \<open>Inl\<close> the raised exception.
\<close>

datatype error =
    ValueError | KeyError | ZeroDivisionError | SystemExit
  | ConfigurationError | SchedulingInfeasible

section \<open>Calendar utility (utils.py)\<close>

definition days_of_week :: "string list" where
  "days_of_week = [''Monday'', ''Tuesday'', ''Wednesday'', ''Thursday'',
                   ''Friday'', ''Saturday'', ''Sunday'']"

text \<open>\<open>list.index(x)\<close>: the first position of \<open>x\<close>, ValueError when it is absent.\<close>

fun list_index :: "'a list \<Rightarrow> 'a \<Rightarrow> error + nat" where
  "list_index [] x = Inl ValueError"
| "list_index (y # ys) x =
     (if y = x then Inr 0
      else (case list_index ys x of Inl e \<Rightarrow> Inl e | Inr i \<Rightarrow> Inr (Suc i)))"

text \<open>
  \<open>what_day(day, start_day)\<close>. Python's \<open>%\<close> with a positive modulus returns a value
  in \<open>0..6\<close> for every integer, as \<open>mod\<close> on \<open>int\<close> does, so the final list access is
  always in range.
\<close>

definition what_day :: "int \<Rightarrow> string \<Rightarrow> error + (string \<times> bool)" where
  "what_day day start_day =
     (case list_index days_of_week start_day of
        Inl e \<Rightarrow> Inl e
      | Inr i \<Rightarrow>
          (let day_index = (int i + day) mod 7;
               is_weekend = (day_index \<ge> 5)
           in Inr (days_of_week ! nat day_index, is_weekend)))"


section \<open>Python containers\<close>

text \<open>
  A Python \<open>dict\<close> keeps its keys in insertion order, holds one entry per key, and
  \<open>d[k] = v\<close> on a key that is present replaces the value in place. That is an
  association list under \<open>AList.update\<close>. \<open>d[k]\<close> on a missing key raises KeyError.
\<close>

type_synonym ('k, 'v) dict = "('k \<times> 'v) list"

definition dict_set :: "'k \<Rightarrow> 'v \<Rightarrow> ('k, 'v) dict \<Rightarrow> ('k, 'v) dict" where
  "dict_set k v d = AList.update k v d"

definition dict_get :: "('k, 'v) dict \<Rightarrow> 'k \<Rightarrow> error + 'v" where
  "dict_get d k = (case map_of d k of None \<Rightarrow> Inl KeyError | Some v \<Rightarrow> Inr v)"

definition keys :: "('k, 'v) dict \<Rightarrow> 'k list" where
  "keys d = map fst d"

definition dict_values :: "('k, 'v) dict \<Rightarrow> 'v list" where
  "dict_values d = map snd d"

text \<open>Sequencing of a computation that may raise.\<close>

definition then_do :: "error + 'a \<Rightarrow> ('a \<Rightarrow> error + 'b) \<Rightarrow> error + 'b" where
  "then_do r f = (case r of Inl e \<Rightarrow> Inl e | Inr x \<Rightarrow> f x)"

text \<open>A \<open>for\<close> loop over a list whose body updates a state and may raise.\<close>

fun for_each :: "'a list \<Rightarrow> ('a \<Rightarrow> 's \<Rightarrow> error + 's) \<Rightarrow> 's \<Rightarrow> error + 's" where
  "for_each [] body s = Inr s"
| "for_each (x # xs) body s = then_do (body x s) (for_each xs body)"

text \<open>
  A generator of dictionary lookups \<open>d[k] for k in ks\<close>, consumed in order: the first
  missing key raises KeyError.
\<close>

fun lookup_all :: "('k, 'v) dict \<Rightarrow> 'k list \<Rightarrow> error + 'v list" where
  "lookup_all d [] = Inr []"
| "lookup_all d (k # ks) =
     then_do (dict_get d k) (\<lambda>v. then_do (lookup_all d ks) (\<lambda>vs. Inr (v # vs)))"

text \<open>\<open>range(a, b)\<close> and \<open>range(n)\<close>; empty when \<open>b \<le> a\<close>.\<close>

definition py_range :: "int \<Rightarrow> int \<Rightarrow> int list" where
  "py_range a b = map (\<lambda>i. a + int i) [0..<nat (b - a)]"

definition py_range0 :: "int \<Rightarrow> int list" where
  "py_range0 n = py_range 0 n"

text \<open>
  The extended slice \<open>xs[::k]\<close>: every \<open>k\<close>-th element from the front for \<open>k > 0\<close>, every
  \<open>|k|\<close>-th element from the back for \<open>k < 0\<close>, ValueError for \<open>k = 0\<close>.
\<close>

fun every_nth :: "nat \<Rightarrow> 'a list \<Rightarrow> 'a list" where
  "every_nth k [] = []"
| "every_nth k (x # xs) = x # every_nth k (drop (k - 1) xs)"

definition slice_step :: "'a list \<Rightarrow> int \<Rightarrow> error + 'a list" where
  "slice_step xs k =
     (if k = 0 then Inl ValueError
      else if k > 0 then Inr (every_nth (nat k) xs)
      else Inr (every_nth (nat (- k)) (rev xs)))"

text \<open>\<open>str(i)\<close> for an integer, as the f-strings of the variable names use it.\<close>

fun str_nat :: "nat \<Rightarrow> string" where
  "str_nat n =
     (if n < 10 then [''0123456789'' ! n]
      else str_nat (n div 10) @ [''0123456789'' ! (n mod 10)])"

definition str_int :: "int \<Rightarrow> string" where
  "str_int i = (if i < 0 then CHR ''-'' # str_nat (nat (- i)) else str_nat (nat i))"

section \<open>The CP-SAT model (the part of OR-Tools the scheduler uses)\<close>

text \<open>
  A \<open>CpModel\<close> is the list of its Boolean variables (a variable is its index; the name
  given to \<open>NewBoolVar\<close> is only a label, two variables may carry the same one) and the
  list of its constraints, in the order they were added. The constraint forms are the
  ones the library builds: a comparison of a sum of variables with a constant, an
  equality of two variables, exactly-one, at-most-one, and max-equality. A constraint
  carries its enforcement literals (\<open>OnlyEnforceIf\<close>).
\<close>

datatype relation = LE | EQ | GE

datatype ct =
    Linear "nat list" relation int
  | VarEq nat nat
  | ExactlyOne "nat list"
  | AtMostOne "nat list"
  | MaxEquality nat "nat list"

datatype constraint = Constraint ct "nat list"

record cp_model =
  variables :: "string list"
  constraints :: "constraint list"

definition CpModel :: cp_model where
  "CpModel = \<lparr>variables = [], constraints = []\<rparr>"

definition NewBoolVar :: "string \<Rightarrow> cp_model \<Rightarrow> nat \<times> cp_model" where
  "NewBoolVar name m = (length (variables m), m\<lparr>variables := variables m @ [name]\<rparr>)"

definition add_ct :: "constraint \<Rightarrow> cp_model \<Rightarrow> cp_model" where
  "add_ct c m = m\<lparr>constraints := constraints m @ [c]\<rparr>"

text \<open>
  \<open>model.Add(e)\<close>. Where the Python sum ranges over no variable at all, \<open>sum\<close> is the
  integer 0 and the comparison a plain \<open>bool\<close>; \<open>Linear [] rel c\<close> stands for it, with the
  same truth value.
\<close>

definition Add :: "ct \<Rightarrow> cp_model \<Rightarrow> cp_model" where
  "Add e m = add_ct (Constraint e []) m"

text \<open>\<open>model.Add(e).OnlyEnforceIf(b)\<close>, which the library always writes as one chain.\<close>

definition Add_OnlyEnforceIf :: "ct \<Rightarrow> nat \<Rightarrow> cp_model \<Rightarrow> cp_model" where
  "Add_OnlyEnforceIf e b m = add_ct (Constraint e [b]) m"

definition AddExactlyOne :: "nat list \<Rightarrow> cp_model \<Rightarrow> cp_model" where
  "AddExactlyOne xs m = add_ct (Constraint (ExactlyOne xs) []) m"

definition AddAtMostOne :: "nat list \<Rightarrow> cp_model \<Rightarrow> cp_model" where
  "AddAtMostOne xs m = add_ct (Constraint (AtMostOne xs) []) m"

definition AddMaxEquality :: "nat \<Rightarrow> nat list \<Rightarrow> cp_model \<Rightarrow> cp_model" where
  "AddMaxEquality target xs m = add_ct (Constraint (MaxEquality target xs) []) m"

text \<open>
  What a constraint means under an assignment of values to the variables, as the
  solver's interface documents it: exactly-one and at-most-one count the variables that
  are 1, max-equality makes the target the maximum of the sources (their logical OR, for
  Boolean sources; 0 for no source), and a constraint with enforcement literals binds
  only when all of them are 1.
\<close>

definition compare :: "relation \<Rightarrow> int \<Rightarrow> int \<Rightarrow> bool" where
  "compare r a b = (case r of LE \<Rightarrow> a \<le> b | EQ \<Rightarrow> a = b | GE \<Rightarrow> a \<ge> b)"

fun holds :: "(nat \<Rightarrow> int) \<Rightarrow> ct \<Rightarrow> bool" where
  "holds v (Linear xs r c) = compare r (sum_list (map v xs)) c"
| "holds v (VarEq a b) = (v a = v b)"
| "holds v (ExactlyOne xs) = (sum_list (map v xs) = 1)"
| "holds v (AtMostOne xs) = (sum_list (map v xs) \<le> 1)"
| "holds v (MaxEquality t xs) = (v t = foldr max (map v xs) 0)"

fun satisfied :: "(nat \<Rightarrow> int) \<Rightarrow> constraint \<Rightarrow> bool" where
  "satisfied v (Constraint e lits) = ((\<forall>l \<in> set lits. v l = 1) \<longrightarrow> holds v e)"

definition feasible :: "(nat \<Rightarrow> int) \<Rightarrow> cp_model \<Rightarrow> bool" where
  "feasible v m =
     ((\<forall>i \<in> set [0..<length (variables m)]. v i = 0 \<or> v i = 1) \<and>
      (\<forall>c \<in> set (constraints m). satisfied v c))"

text \<open>The variables a constraint mentions.\<close>

fun ct_vars :: "ct \<Rightarrow> nat set" where
  "ct_vars (Linear xs r c) = set xs"
| "ct_vars (VarEq a b) = {a, b}"
| "ct_vars (ExactlyOne xs) = set xs"
| "ct_vars (AtMostOne xs) = set xs"
| "ct_vars (MaxEquality t xs) = insert t (set xs)"

fun constraint_vars :: "constraint \<Rightarrow> nat set" where
  "constraint_vars (Constraint e lits) = ct_vars e \<union> set lits"

section \<open>The scheduler's variable universe (scheduler.py)\<close>

text \<open>
  The roster is a table with a \<open>Nurse\<close> and a \<open>Team\<close> column; \<open>nurses['Nurse']\<close> is the
  column of identifiers, in row order.
\<close>

record nurse_row =
  Nurse :: int
  Team :: string

definition Nurse_column :: "nurse_row list \<Rightarrow> int list" where
  "Nurse_column nurses = map Nurse nurses"

type_synonym shift_key = "int \<times> int \<times> int"
type_synonym rest_key = "int \<times> int"

definition shift_name :: "shift_key \<Rightarrow> string" where
  "shift_name k = (case k of (nurse, day, shift) \<Rightarrow>
     ''shift_n'' @ str_int nurse @ ''_d'' @ str_int day @ ''_s'' @ str_int shift)"

definition rest_name :: "rest_key \<Rightarrow> string" where
  "rest_name k = (case k of (nurse, day) \<Rightarrow> ''rest_n'' @ str_int nurse @ ''_d'' @ str_int day)"

text \<open>
  The dict comprehension \<open>{key: model.NewBoolVar(name(key)) for key in ...}\<close>: one new
  variable per generated key, stored under the key.
\<close>

fun new_bool_vars ::
  "('k \<Rightarrow> string) \<Rightarrow> 'k list \<Rightarrow> ('k, nat) dict \<Rightarrow> cp_model \<Rightarrow> ('k, nat) dict \<times> cp_model" where
  "new_bool_vars name [] d m = (d, m)"
| "new_bool_vars name (k # ks) d m =
     (case NewBoolVar (name k) m of (v, m') \<Rightarrow> new_bool_vars name ks (dict_set k v d) m')"

text \<open>
  The solver's answer: a status and the value of each variable. The answer is an input
  of the model; the search is not part of the scheduler.
\<close>

datatype status = UNKNOWN | MODEL_INVALID | FEASIBLE | INFEASIBLE | OPTIMAL

type_synonym 'p constraint_func =
  "cp_model \<Rightarrow> (shift_key, nat) dict \<Rightarrow> nurse_row list \<Rightarrow> int list \<Rightarrow> (int, string) dict
     \<Rightarrow> 'p \<Rightarrow> error + cp_model"

text \<open>
  The dataclass \<open>NurseSchedulingModel\<close>. \<open>'p\<close> is the type of the keyword parameters
  stored with a registered constraint. \<open>solution\<close> and \<open>assigned_rests\<close> do not exist
  before \<open>solve\<close> sets them. A row of \<open>solution\<close> is (Nurse, Day, Shift, Weekend).
\<close>

record 'p NurseSchedulingModel =
  self_nurses :: "nurse_row list"
  self_daily_shifts :: "(int, string) dict"
  self_num_days :: int
  self_start_day :: string
  self_all_days :: "int list"
  self_num_nurses :: int
  self_model :: cp_model
  self_shifts :: "(shift_key, nat) dict"
  self_rest_days :: "(rest_key, nat) dict"
  self_applied_constraints :: "(string, 'p constraint_func \<times> 'p) dict"
  self_solution :: "(int \<times> int \<times> int \<times> bool) list option"
  self_assigned_rests :: "rest_key list option"

definition shift_keys :: "nurse_row list \<Rightarrow> int list \<Rightarrow> (int, string) dict \<Rightarrow> shift_key list" where
  "shift_keys nurses days daily_shifts =
     [(nurse, day, shift). nurse \<leftarrow> Nurse_column nurses, day \<leftarrow> days, shift \<leftarrow> keys daily_shifts]"

definition rest_keys :: "nurse_row list \<Rightarrow> int list \<Rightarrow> rest_key list" where
  "rest_keys nurses days = [(nurse, day). nurse \<leftarrow> Nurse_column nurses, day \<leftarrow> days]"

text \<open>
  Construction: the generated \<open>__init__\<close> followed by \<open>__post_init__\<close>. The source has no
  check of its arguments and no \<open>raise\<close>; the result type only records that.
\<close>

definition post_init ::
  "nurse_row list \<Rightarrow> (int, string) dict \<Rightarrow> int \<Rightarrow> string \<Rightarrow> error + 'p NurseSchedulingModel" where
  "post_init nurses daily_shifts num_days start_day =
     (let all_days = py_range0 num_days;
          num_nurses = int (length nurses);
          model0 = CpModel;
          (shifts, model1) =
             new_bool_vars shift_name (shift_keys nurses all_days daily_shifts) [] model0;
          (rest_days, model2) =
             new_bool_vars rest_name (rest_keys nurses all_days) [] model1
      in Inr \<lparr>self_nurses = nurses, self_daily_shifts = daily_shifts,
              self_num_days = num_days, self_start_day = start_day,
              self_all_days = all_days, self_num_nurses = num_nurses,
              self_model = model2, self_shifts = shifts, self_rest_days = rest_days,
              self_applied_constraints = [], self_solution = None,
              self_assigned_rests = None\<rparr>)"

text \<open>The registry of the add/apply variant of the scheduler.\<close>

definition add_constraints ::
  "string \<Rightarrow> 'p constraint_func \<Rightarrow> 'p \<Rightarrow> 'p NurseSchedulingModel \<Rightarrow> 'p NurseSchedulingModel" where
  "add_constraints description constraint_func params self =
     self\<lparr>self_applied_constraints :=
             dict_set description (constraint_func, params) (self_applied_constraints self)\<rparr>"

definition apply_constraints :: "'p NurseSchedulingModel \<Rightarrow> error + 'p NurseSchedulingModel" where
  "apply_constraints self =
     for_each (dict_values (self_applied_constraints self))
       (\<lambda>(constraint_func, params) s.
           then_do (constraint_func (self_model s) (self_shifts s) (self_nurses s)
                      (self_all_days s) (self_daily_shifts s) params)
             (\<lambda>m'. Inr (s\<lparr>self_model := m'\<rparr>)))
       self"

text \<open>
  \<open>solve\<close>, given the solver's answer. The rows of the tables come from Python sets, whose
  order is not fixed; the lists below stand for their contents, and \<open>sort_values\<close> is left
  out with the order. Printing is left out, and so is \<open>df_to_csv\<close>, which writes the rota
  to a file, returns nothing and catches what the writing raises: the file system is not
  part of the model. The \<open>Weekend\<close> column calls \<open>what_day\<close> on the day of each row.
\<close>

fun weekend_column :: "string \<Rightarrow> shift_key list \<Rightarrow> error + (int \<times> int \<times> int \<times> bool) list" where
  "weekend_column start_day [] = Inr []"
| "weekend_column start_day ((n, d, s) # rows) =
     then_do (what_day d start_day) (\<lambda>wd.
       then_do (weekend_column start_day rows) (\<lambda>rest. Inr ((n, d, s, snd wd) # rest)))"

text \<open>\<open>solver.Value(d[k]) == 1\<close>, for a key \<open>k\<close> of the dictionary \<open>d\<close>.\<close>

definition value_is_1 :: "(nat \<Rightarrow> int) \<Rightarrow> ('k, nat) dict \<Rightarrow> 'k \<Rightarrow> bool" where
  "value_is_1 Value d k = (case map_of d k of None \<Rightarrow> False | Some x \<Rightarrow> Value x = 1)"

text \<open>
  \<open>solution.pivot(index='Day', columns='Shift', values='Nurse')\<close>: one row per day and
  one column per shift value that occurs, both sorted, and the nurse in each cell. Two
  rows with the same (Day, Shift) raise ValueError. The result is (index, columns,
  cells).
\<close>

definition pivot_Day_Shift ::
  "shift_key list \<Rightarrow> error + (int list \<times> int list \<times> ((int \<times> int) \<times> int) list)" where
  "pivot_Day_Shift rows =
     (if distinct (map (\<lambda>(n, d, s). (d, s)) rows) then
        Inr (sort (remdups (map (\<lambda>(n, d, s). d) rows)),
             sort (remdups (map (\<lambda>(n, d, s). s) rows)),
             map (\<lambda>(n, d, s). ((d, s), n)) rows)
      else Inl ValueError)"

text \<open>\<open>rota.columns = labels\<close>: ValueError unless there is one label per column.\<close>

definition set_columns :: "int list \<Rightarrow> string list \<Rightarrow> error + string list" where
  "set_columns columns labels =
     (if length labels = length columns then Inr labels else Inl ValueError)"

text \<open>
  \<open>solve\<close> of \<open>scheduler.py\<close>: between the Solution table and the RestDay table it pivots
  the rota and names its columns after the shift types, for the CSV file.
\<close>

definition solve ::
  "status \<times> (nat \<Rightarrow> int) \<Rightarrow> 'p NurseSchedulingModel \<Rightarrow> error + 'p NurseSchedulingModel" where
  "solve answer self =
     (case answer of (status, Value) \<Rightarrow>
        if status = OPTIMAL then
          (let rota_dict = filter (value_is_1 Value (self_shifts self)) (keys (self_shifts self))
           in then_do (pivot_Day_Shift rota_dict) (\<lambda>rota.
                then_do (set_columns (fst (snd rota)) (dict_values (self_daily_shifts self)))
                  (\<lambda>columns.
                     (let rests_dict = filter (value_is_1 Value (self_rest_days self))
                                         (keys (self_rest_days self))
                      in then_do (weekend_column (self_start_day self) rota_dict)
                           (\<lambda>solution. Inr (self\<lparr>self_solution := Some solution,
                                                    self_assigned_rests := Some rests_dict\<rparr>))))))
        else Inl SystemExit)"

text \<open>
  \<open>solve\<close> of the add/apply variant (\<open>Add-Apply Constraints Basis/scheduler.py\<close>), which
  builds the two tables and no rota.
\<close>

definition solve_basis ::
  "status \<times> (nat \<Rightarrow> int) \<Rightarrow> 'p NurseSchedulingModel \<Rightarrow> error + 'p NurseSchedulingModel" where
  "solve_basis answer self =
     (case answer of (status, Value) \<Rightarrow>
        if status = OPTIMAL then
          (let rota_dict = filter (value_is_1 Value (self_shifts self)) (keys (self_shifts self));
               rests_dict = filter (value_is_1 Value (self_rest_days self))
                              (keys (self_rest_days self))
           in then_do (weekend_column (self_start_day self) rota_dict)
                (\<lambda>solution. Inr (self\<lparr>self_solution := Some solution,
                                         self_assigned_rests := Some rests_dict\<rparr>)))
        else Inl SystemExit)"

section \<open>The constraint library (constraints.py)\<close>

text \<open>
  Every rule takes the model and returns it with its constraints added, or raises. The
  sums are generator expressions over the \<open>shifts\<close> dictionary, so each rule first looks
  the variables up, in the order of the generator. The \<open>print\<close> at the head of
  \<open>limit_shifts_per_period\<close> is left out.
\<close>

definition limit_shifts_per_period ::
  "cp_model \<Rightarrow> (shift_key, nat) dict \<Rightarrow> nurse_row list \<Rightarrow> int list \<Rightarrow> (int, string) dict
     \<Rightarrow> int \<Rightarrow> int \<Rightarrow> error + cp_model" where
  "limit_shifts_per_period model shifts nurses days daily_shifts period_length shift_limit =
     then_do (slice_step days period_length) (\<lambda>periods.
       for_each periods (\<lambda>period.
         (let period_days = py_range period (min (period + period_length) (int (length days)))
          in for_each (Nurse_column nurses) (\<lambda>nurse m.
               then_do (lookup_all shifts
                          [(nurse, day, shift). day \<leftarrow> period_days, shift \<leftarrow> keys daily_shifts])
                 (\<lambda>xs. Inr (Add (Linear xs LE shift_limit) m))))) model)"

definition single_nurse_per_shift ::
  "cp_model \<Rightarrow> (shift_key, nat) dict \<Rightarrow> nurse_row list \<Rightarrow> int list \<Rightarrow> (int, string) dict
     \<Rightarrow> error + cp_model" where
  "single_nurse_per_shift model shifts nurses days daily_shifts =
     for_each days (\<lambda>day.
       for_each (keys daily_shifts) (\<lambda>shift m.
         then_do (lookup_all shifts [(nurse, day, shift). nurse \<leftarrow> Nurse_column nurses])
           (\<lambda>xs. Inr (AddExactlyOne xs m)))) model"

text \<open>
  \<open>nurses.groupby('Team')\<close>: one group per team label, the labels in sorted order, the
  rows of a group in roster order.
\<close>

definition groupby_Team :: "nurse_row list \<Rightarrow> nurse_row list list" where
  "groupby_Team nurses =
     map (\<lambda>t. filter (\<lambda>r. Team r = t) nurses) (sort (remdups (map Team nurses)))"

definition limit_nurse_per_team_per_day ::
  "cp_model \<Rightarrow> (shift_key, nat) dict \<Rightarrow> nurse_row list \<Rightarrow> int list \<Rightarrow> (int, string) dict
     \<Rightarrow> int \<Rightarrow> error + cp_model" where
  "limit_nurse_per_team_per_day model shifts nurses days daily_shifts nurse_limit =
     for_each days (\<lambda>day.
       for_each (groupby_Team nurses) (\<lambda>group m.
         then_do (lookup_all shifts
                    [(nurse, day, shift). nurse \<leftarrow> Nurse_column group, shift \<leftarrow> keys daily_shifts])
           (\<lambda>xs. Inr (Add (Linear xs LE nurse_limit) m)))) model"

definition distribute_shifts_evenly ::
  "cp_model \<Rightarrow> (shift_key, nat) dict \<Rightarrow> nurse_row list \<Rightarrow> int list \<Rightarrow> (int, string) dict
     \<Rightarrow> int \<Rightarrow> int \<Rightarrow> error + cp_model" where
  "distribute_shifts_evenly model shifts nurses days daily_shifts num_nurses tolerance =
     (let num_days = int (length days);
          num_shifts = int (length daily_shifts)
      in if num_nurses = 0 then Inl ZeroDivisionError
         else
           (let min_shifts_per_nurse = (num_shifts * num_days) div num_nurses;
                max_shifts_per_nurse =
                  (if (num_shifts * num_days) mod num_nurses = 0 then min_shifts_per_nurse
                   else min_shifts_per_nurse + tolerance)
            in for_each (Nurse_column nurses) (\<lambda>nurse m.
                 then_do (lookup_all shifts
                            [(nurse, day, shift). day \<leftarrow> days, shift \<leftarrow> keys daily_shifts])
                   (\<lambda>num_shifts_worked.
                      Inr (Add (Linear num_shifts_worked LE max_shifts_per_nurse)
                            (Add (Linear num_shifts_worked GE min_shifts_per_nurse) m)))) model))"

definition max_shifts_per_week ::
  "cp_model \<Rightarrow> (shift_key, nat) dict \<Rightarrow> nurse_row list \<Rightarrow> int list \<Rightarrow> (int, string) dict
     \<Rightarrow> int \<Rightarrow> int \<Rightarrow> error + cp_model" where
  "max_shifts_per_week model shifts nurses days daily_shifts num_days shift_limit =
     then_do (slice_step days 7) (\<lambda>weeks.
       for_each weeks (\<lambda>week_start.
         for_each (Nurse_column nurses) (\<lambda>nurse m.
           (let week_days = py_range week_start (min (week_start + 7) num_days)
            in then_do (lookup_all shifts
                          [(nurse, day, shift). day \<leftarrow> week_days, shift \<leftarrow> keys daily_shifts])
                 (\<lambda>xs. Inr (Add (Linear xs LE shift_limit) m))))) model)"

definition limit_consecutive_shifts ::
  "cp_model \<Rightarrow> (shift_key, nat) dict \<Rightarrow> nurse_row list \<Rightarrow> int list
     \<Rightarrow> int \<Rightarrow> int list \<Rightarrow> int \<Rightarrow> error + cp_model" where
  "limit_consecutive_shifts model shifts nurses days num_days limited_shifts num_consecutive =
     for_each days (\<lambda>day.
       for_each (Nurse_column nurses) (\<lambda>nurse m.
         (let max_consecutive_days = min num_consecutive (num_days - day)
          in then_do (lookup_all shifts
                        [(nurse, day + offset, shift).
                           offset \<leftarrow> py_range0 max_consecutive_days, shift \<leftarrow> limited_shifts])
               (\<lambda>xs. Inr (AddAtMostOne xs m))))) model"

definition worked_shift_name :: "int \<Rightarrow> int \<Rightarrow> string" where
  "worked_shift_name nurse day = ''worked_shift_n'' @ str_int nurse @ ''_d'' @ str_int day"

definition limit_shifts_after_shifts ::
  "cp_model \<Rightarrow> (shift_key, nat) dict \<Rightarrow> nurse_row list \<Rightarrow> int list
     \<Rightarrow> int list \<Rightarrow> int list \<Rightarrow> int \<Rightarrow> int \<Rightarrow> error + cp_model" where
  "limit_shifts_after_shifts model shifts nurses days first_shifts limited_shifts
       num_consecutive allowed_num_shifts =
     for_each days (\<lambda>day.
       for_each (Nurse_column nurses) (\<lambda>nurse m.
         (case NewBoolVar (worked_shift_name nurse day) m of
            (worked_shifts_first, m1) \<Rightarrow>
              then_do (lookup_all shifts [(nurse, day, shift). shift \<leftarrow> first_shifts])
                (\<lambda>firsts.
                   (let m2 = AddMaxEquality worked_shifts_first firsts m1;
                        max_consecutive_days = min num_consecutive (int (length days) - day)
                    in then_do (lookup_all shifts
                                  [(nurse, day + offset, shift).
                                     offset \<leftarrow> py_range0 max_consecutive_days,
                                     shift \<leftarrow> limited_shifts])
                         (\<lambda>xs. Inr (Add_OnlyEnforceIf (Linear xs EQ allowed_num_shifts)
                                       worked_shifts_first m2))))))) model"

text \<open>
  The body of \<open>assign_consecutive_shifts\<close> for one block start: the indicator, the
  propagation over the block, and the two rest days after it.
\<close>

definition block_days ::
  "(shift_key, nat) dict \<Rightarrow> int \<Rightarrow> int \<Rightarrow> int \<Rightarrow> int \<Rightarrow> int \<Rightarrow> cp_model \<Rightarrow> error + cp_model" where
  "block_days shifts nurse day num_days shift_index num_consecutive m =
     for_each (py_range 1 num_consecutive) (\<lambda>day_offset m.
       (let shift_day_index = day + day_offset
        in if shift_day_index < num_days then
             then_do (dict_get shifts (nurse, shift_day_index, shift_index)) (\<lambda>a.
               then_do (dict_get shifts (nurse, day, shift_index)) (\<lambda>b.
                 Inr (Add (VarEq a b) m)))
           else Inr m)) m"

definition rest_after_block ::
  "(shift_key, nat) dict \<Rightarrow> (rest_key, nat) dict \<Rightarrow> (int, string) dict \<Rightarrow> int \<Rightarrow> int \<Rightarrow> int
     \<Rightarrow> int \<Rightarrow> nat \<Rightarrow> cp_model \<Rightarrow> error + cp_model" where
  "rest_after_block shifts rest_days daily_shifts nurse day num_days num_consecutive
       worked_consecutive_shifts m =
     (let rest_start_day = day + num_consecutive
      in for_each (py_range0 2) (\<lambda>rest_offset m.
           (let rest_day_index = rest_start_day + rest_offset
            in if rest_day_index < num_days then
                 then_do (lookup_all shifts
                            [(nurse, rest_day_index, shift). shift \<leftarrow> keys daily_shifts])
                   (\<lambda>xs.
                      (let m1 = Add_OnlyEnforceIf (Linear xs EQ 0) worked_consecutive_shifts m
                       in then_do (dict_get rest_days (nurse, rest_day_index))
                            (\<lambda>r. Inr (Add (VarEq r worked_consecutive_shifts) m1))))
               else Inr m)) m)"

definition assign_consecutive_shifts ::
  "cp_model \<Rightarrow> (shift_key, nat) dict \<Rightarrow> (rest_key, nat) dict \<Rightarrow> nurse_row list \<Rightarrow> int list
     \<Rightarrow> (int, string) dict \<Rightarrow> string \<Rightarrow> int \<Rightarrow> string \<Rightarrow> int \<Rightarrow> int \<Rightarrow> error + cp_model" where
  "assign_consecutive_shifts model shifts rest_days nurses days daily_shifts start_day
       num_days start_shift_day shift_index num_consecutive =
     for_each days (\<lambda>day m.
       then_do (what_day day start_day) (\<lambda>wd.
         (let day_name = fst wd
          in for_each (Nurse_column nurses) (\<lambda>nurse m.
               if day_name = start_shift_day then
                 (case NewBoolVar (worked_shift_name nurse day) m of
                    (worked_consecutive_shifts, m1) \<Rightarrow>
                      then_do (dict_get shifts (nurse, day, shift_index)) (\<lambda>x.
                        then_do (block_days shifts nurse day num_days shift_index num_consecutive
                                   (Add (VarEq worked_consecutive_shifts x) m1))
                          (rest_after_block shifts rest_days daily_shifts nurse day num_days
                             num_consecutive worked_consecutive_shifts)))
               else Inr m) m))) model"

text \<open>The accumulation \<open>for i in range(blocks_per_nurse): += 3 if i % 2 == 0 else 4\<close>.\<close>

definition alternating_sum :: "int \<Rightarrow> int" where
  "alternating_sum blocks_per_nurse =
     fold (\<lambda>i acc. if i mod 2 = 0 then acc + 3 else acc + 4) (py_range0 blocks_per_nurse) 0"

definition distribute_night_shifts_evenly ::
  "cp_model \<Rightarrow> (shift_key, nat) dict \<Rightarrow> nurse_row list \<Rightarrow> int list
     \<Rightarrow> int \<Rightarrow> int \<Rightarrow> error + cp_model" where
  "distribute_night_shifts_evenly model shifts nurses days num_nurses shift_index =
     (let num_days = int (length days);
          weeks = num_days div 7;
          remaining_days = num_days mod 7;
          num_3blocks = weeks + (remaining_days div 3);
          num_4blocks = weeks;
          total_blocks = num_3blocks + num_4blocks
      in if num_nurses = 0 then Inl ZeroDivisionError
         else
           (let blocks_per_nurse = total_blocks div num_nurses;
                min_shifts_per_nurse = alternating_sum blocks_per_nurse;
                max_shifts_per_nurse =
                  (if num_days mod num_nurses = 0 then min_shifts_per_nurse
                   else min_shifts_per_nurse + 4)
            in for_each (Nurse_column nurses) (\<lambda>nurse m.
                 then_do (lookup_all shifts [(nurse, day, shift_index). day \<leftarrow> days])
                   (\<lambda>num_shifts_worked.
                      Inr (Add (Linear num_shifts_worked LE max_shifts_per_nurse)
                            (Add (Linear num_shifts_worked GE min_shifts_per_nurse) m)))) model))"

section \<open>Growth of a model\<close>

text \<open>
  A rule only ever appends: the model after it has the variables and the constraints of
  the model before it as prefixes.
\<close>

definition extends :: "cp_model \<Rightarrow> cp_model \<Rightarrow> bool" where
  "extends m m' = (prefix (variables m) (variables m') \<and> prefix (constraints m) (constraints m'))"

section \<open>A small instance\<close>

text \<open>Two nurses, one day, one shift type; used to run the rules on concrete data.\<close>

definition demo_nurses :: "nurse_row list" where
  "demo_nurses = [\<lparr>Nurse = 1, Team = ''A''\<rparr>, \<lparr>Nurse = 2, Team = ''B''\<rparr>]"

definition demo_model :: cp_model where
  "demo_model = \<lparr>variables = [''shift_n1_d0_s0'', ''shift_n2_d0_s0''], constraints = []\<rparr>"

definition demo_shifts :: "(shift_key, nat) dict" where
  "demo_shifts = [((1, 0, 0), 0), ((2, 0, 0), 1)]"


section \<open>Even distribution: the bounds in the words of the specification\<close>

text \<open>
  A nurse's total assigned count over a list of keys, and the bounds as the
  specification states them: \<open>min = floor((|S| * |D|) / nurse_count)\<close>, \<open>max = min\<close> when the
  division is exact and \<open>min + tolerance\<close> otherwise.
\<close>

definition assigned_count :: "(nat \<Rightarrow> int) \<Rightarrow> ('k, nat) dict \<Rightarrow> 'k list \<Rightarrow> int" where
  "assigned_count v d ks = sum_list (map (\<lambda>k. case map_of d k of None \<Rightarrow> 0 | Some x \<Rightarrow> v x) ks)"

definition fair_min :: "nat \<Rightarrow> nat \<Rightarrow> int \<Rightarrow> int" where
  "fair_min n_shifts n_days nurse_count =
     \<lfloor>(real n_shifts * real n_days) / real_of_int nurse_count\<rfloor>"

definition fair_max :: "nat \<Rightarrow> nat \<Rightarrow> int \<Rightarrow> int \<Rightarrow> int" where
  "fair_max n_shifts n_days nurse_count tolerance =
     (if nurse_count dvd int (n_shifts * n_days) then fair_min n_shifts n_days nurse_count
      else fair_min n_shifts n_days nurse_count + tolerance)"

text \<open>Three nurses, ten days, one shift type.\<close>

definition demo10_nurses :: "nurse_row list" where
  "demo10_nurses = [\<lparr>Nurse = 0, Team = ''A''\<rparr>, \<lparr>Nurse = 1, Team = ''A''\<rparr>,
                    \<lparr>Nurse = 2, Team = ''B''\<rparr>]"

definition demo10_shifts :: "(shift_key, nat) dict" where
  "demo10_shifts = zip [(n, d, 0). n \<leftarrow> [0, 1, 2], d \<leftarrow> py_range0 10] [0..<30]"

definition demo10_model :: cp_model where
  "demo10_model = \<lparr>variables = map shift_name (keys demo10_shifts), constraints = []\<rparr>"

definition demo10_result :: cp_model where
  "demo10_result = demo10_model\<lparr>constraints :=
      [c. n \<leftarrow> [0, 1, 2],
          c \<leftarrow> [Constraint (Linear [10 * n..<10 * n + 10] GE 3) [],
                 Constraint (Linear [10 * n..<10 * n + 10] LE 4) []]]\<rparr>"

section \<open>A scheduler to solve\<close>



section \<open>The follow-on window, in words\<close>

text \<open>
  The window of the follow-on rule read as "the following days": the \<open>n\<close> days after
  day \<open>d\<close>, that is \<open>d + 1, ..., d + n\<close>.
\<close>

definition following_days :: "int \<Rightarrow> int \<Rightarrow> int list" where
  "following_days d n = py_range (d + 1) (d + 1 + n)"

text \<open>One nurse, two days, one shift type.\<close>

definition demo2_nurses :: "nurse_row list" where
  "demo2_nurses = [\<lparr>Nurse = 1, Team = ''A''\<rparr>]"

definition demo2_shifts :: "(shift_key, nat) dict" where
  "demo2_shifts = [((1, 0, 0), 0), ((1, 1, 0), 1)]"

definition demo2_model :: cp_model where
  "demo2_model = \<lparr>variables = [''shift_n1_d0_s0'', ''shift_n1_d1_s0''], constraints = []\<rparr>"

definition demo2_after :: cp_model where
  "demo2_after =
     \<lparr>variables = [''shift_n1_d0_s0'', ''shift_n1_d1_s0'', ''worked_shift_n1_d0'',
                   ''worked_shift_n1_d1''],
      constraints = [Constraint (MaxEquality 2 [0]) [], Constraint (Linear [0] EQ 0) [2],
                     Constraint (MaxEquality 3 [1]) [], Constraint (Linear [1] EQ 0) [3]]\<rparr>"

section \<open>Block assignment: what one block adds to the model\<close>

text \<open>
  The constraints of one block of \<open>assign_consecutive_shifts\<close>, for nurse \<open>nurse\<close> and block
  start \<open>day\<close>: the propagation of the first day's variable over the in-horizon days of
  the block, and the coupling of the two in-horizon days after the block with the block
  indicator \<open>w\<close>.
\<close>

definition block_propagated ::
  "(shift_key, nat) dict \<Rightarrow> int \<Rightarrow> int \<Rightarrow> int \<Rightarrow> int \<Rightarrow> int \<Rightarrow> cp_model \<Rightarrow> bool" where
  "block_propagated shifts nurse day num_days shift_index num_consecutive m =
     (\<forall>k \<in> set (py_range 1 num_consecutive). day + k < num_days \<longrightarrow>
        (\<exists>a b. dict_get shifts (nurse, day + k, shift_index) = Inr a \<and>
               dict_get shifts (nurse, day, shift_index) = Inr b \<and>
               Constraint (VarEq a b) [] \<in> set (constraints m)))"

definition rest_coupled ::
  "(shift_key, nat) dict \<Rightarrow> (rest_key, nat) dict \<Rightarrow> (int, string) dict \<Rightarrow> int \<Rightarrow> int \<Rightarrow> int
     \<Rightarrow> int \<Rightarrow> nat \<Rightarrow> cp_model \<Rightarrow> bool" where
  "rest_coupled shifts rest_days daily_shifts nurse day num_days num_consecutive w m =
     (\<forall>off \<in> set (py_range0 2). day + num_consecutive + off < num_days \<longrightarrow>
        (\<exists>xs r. lookup_all shifts
                   [(nurse, day + num_consecutive + off, shift). shift \<leftarrow> keys daily_shifts]
                   = Inr xs \<and>
                dict_get rest_days (nurse, day + num_consecutive + off) = Inr r \<and>
                Constraint (Linear xs EQ 0) [w] \<in> set (constraints m) \<and>
                Constraint (VarEq r w) [] \<in> set (constraints m)))"

text \<open>
  One nurse, four days from a Monday, one shift type; the rest variables follow the
  shift variables, as after construction.
\<close>

definition demo4_nurses :: "nurse_row list" where
  "demo4_nurses = [\<lparr>Nurse = 1, Team = ''A''\<rparr>]"

definition demo4_shifts :: "(shift_key, nat) dict" where
  "demo4_shifts = [((1, 0, 0), 0), ((1, 1, 0), 1), ((1, 2, 0), 2), ((1, 3, 0), 3)]"

definition demo4_rest_days :: "(rest_key, nat) dict" where
  "demo4_rest_days = [((1, 0), 4), ((1, 1), 5), ((1, 2), 6), ((1, 3), 7)]"

definition demo4_model :: cp_model where
  "demo4_model = \<lparr>variables = map shift_name (keys demo4_shifts) @
                                   map rest_name (keys demo4_rest_days),
                   constraints = []\<rparr>"

definition demo4_block :: cp_model where
  "demo4_block = \<lparr>variables = variables demo4_model @ [''worked_shift_n1_d0''],
                   constraints =
                     [Constraint (VarEq 8 0) [], Constraint (VarEq 1 0) [],
                      Constraint (Linear [2] EQ 0) [8], Constraint (VarEq 6 8) [],
                      Constraint (Linear [3] EQ 0) [8], Constraint (VarEq 7 8) []]\<rparr>"

definition demo4_worked :: "nat \<Rightarrow> int" where
  "demo4_worked x = (if x \<in> {0, 1, 6, 7, 8} then 1 else 0)"

section \<open>The dictionaries cut at the horizon\<close>

text \<open>
  The entries of the two variable dictionaries whose day index is below \<open>num_days\<close>. A
  lookup that the cut dictionary answers as the full one does is a lookup of a day below
  \<open>num_days\<close>, or of a key that neither holds.
\<close>

definition shifts_below :: "int \<Rightarrow> (shift_key, nat) dict \<Rightarrow> (shift_key, nat) dict" where
  "shifts_below num_days shifts = filter (\<lambda>((nurse, day, shift), x). day < num_days) shifts"

definition rests_below :: "int \<Rightarrow> (rest_key, nat) dict \<Rightarrow> (rest_key, nat) dict" where
  "rests_below num_days rest_days = filter (\<lambda>((nurse, day), x). day < num_days) rest_days"

text \<open>One nurse, a horizon of two days from a Monday, one shift type, as constructed.\<close>

definition demo_short :: "unit NurseSchedulingModel" where
  "demo_short =
     \<lparr>self_nurses = [\<lparr>Nurse = 1, Team = ''A''\<rparr>], self_daily_shifts = [(0, ''ED Nights'')],
      self_num_days = 2, self_start_day = ''Monday'', self_all_days = [0, 1],
      self_num_nurses = 1,
      self_model = \<lparr>variables = [''shift_n1_d0_s0'', ''shift_n1_d1_s0'', ''rest_n1_d0'',
                                   ''rest_n1_d1''],
                     constraints = []\<rparr>,
      self_shifts = [((1, 0, 0), 0), ((1, 1, 0), 1)],
      self_rest_days = [((1, 0), 2), ((1, 1), 3)],
      self_applied_constraints = [], self_solution = None, self_assigned_rests = None\<rparr>"

section \<open>The registry of rules, in words\<close>

text \<open>
  A sequence of \<open>add_constraints\<close> calls, each given as
  \<open>(description, (constraint_func, params))\<close>.
\<close>

definition register_all ::
  "(string \<times> 'p constraint_func \<times> 'p) list \<Rightarrow> 'p NurseSchedulingModel \<Rightarrow> 'p NurseSchedulingModel" where
  "register_all regs self =
     fold (\<lambda>(description, constraint_func, params).
             add_constraints description constraint_func params) regs self"

text \<open>
  The registry that a sequence of registrations leaves behind: each description keeps
  the slot of its first registration and holds the pair registered for it last.
\<close>

fun first_slots :: "(string \<times> 'v) list \<Rightarrow> (string \<times> 'v) list" where
  "first_slots [] = []"
| "first_slots ((d, v) # rest) =
     (d, case map_of (rev rest) d of None \<Rightarrow> v | Some v' \<Rightarrow> v')
       # filter (\<lambda>q. fst q \<noteq> d) (first_slots rest)"

text \<open>
  The stored entries in the order in which they themselves were registered: an entry
  that a later registration of the same description overwrites is dropped.
\<close>

fun in_registration_order :: "(string \<times> 'v) list \<Rightarrow> (string \<times> 'v) list" where
  "in_registration_order [] = []"
| "in_registration_order ((d, v) # rest) =
     (if d \<in> fst ` set rest then in_registration_order rest
      else (d, v) # in_registration_order rest)"

text \<open>
  Calling the rules of a list one after the other on the shared model, each once, up to
  the first one that raises.
\<close>

fun run_rules ::
  "('p constraint_func \<times> 'p) list \<Rightarrow> 'p NurseSchedulingModel \<Rightarrow> error + 'p NurseSchedulingModel" where
  "run_rules [] self = Inr self"
| "run_rules ((constraint_func, params) # rest) self =
     (case constraint_func (self_model self) (self_shifts self) (self_nurses self)
             (self_all_days self) (self_daily_shifts self) params of
        Inl e \<Rightarrow> Inl e
      | Inr m' \<Rightarrow> run_rules rest (self\<lparr>self_model := m'\<rparr>))"

text \<open>A rule that leaves its parameter as a mark in the model, and three registrations.\<close>

definition mark_rule :: "nat constraint_func" where
  "mark_rule model shifts nurses days daily_shifts params = Inr (AddAtMostOne [params] model)"

definition demo_unbuilt :: "nat NurseSchedulingModel" where
  "demo_unbuilt =
     \<lparr>self_nurses = [], self_daily_shifts = [], self_num_days = 0,
      self_start_day = ''Monday'', self_all_days = [], self_num_nurses = 0,
      self_model = CpModel, self_shifts = [], self_rest_days = [],
      self_applied_constraints = [], self_solution = None, self_assigned_rests = None\<rparr>"

definition demo_registrations :: "(string \<times> nat constraint_func \<times> nat) list" where
  "demo_registrations =
     [(''Constraint A'', mark_rule, 1), (''Constraint B'', mark_rule, 2),
      (''Constraint A'', mark_rule, 3)]"

section \<open>Which variables a rule may mention\<close>

text \<open>
  A constraint is admitted, relative to a variable index \<open>n\<close>, a set \<open>A\<close> of variables and a
  set \<open>R\<close> of rest variables, when it mentions only variables of \<open>A\<close> and variables created
  at index \<open>n\<close> or later, or when it equates a variable of \<open>R\<close> with a variable created at
  index \<open>n\<close> or later. A step from one model to the next keeps to \<open>n\<close>, \<open>A\<close> and \<open>R\<close> when it
  only appends, and every constraint it appends is admitted.
\<close>

definition admitted :: "nat \<Rightarrow> nat set \<Rightarrow> nat set \<Rightarrow> constraint \<Rightarrow> bool" where
  "admitted n A R c =
     (constraint_vars c \<subseteq> A \<union> {x. n \<le> x} \<or>
      (\<exists>r w. r \<in> R \<and> n \<le> w \<and> c = Constraint (VarEq r w) []))"

definition keeps :: "nat \<Rightarrow> nat set \<Rightarrow> nat set \<Rightarrow> cp_model \<Rightarrow> cp_model \<Rightarrow> bool" where
  "keeps n A R m m' =
     (n \<le> length (variables m) \<longrightarrow>
        extends m m' \<and>
        (\<forall>c \<in> set (constraints m'). c \<in> set (constraints m) \<or> admitted n A R c))"

text \<open>
  The rest-day keys that one call of \<open>assign_consecutive_shifts\<close> couples: for every block
  start and nurse, the two days after the block that are below \<open>num_days\<close>.
\<close>

definition is_block_start :: "string \<Rightarrow> string \<Rightarrow> int \<Rightarrow> bool" where
  "is_block_start start_day start_shift_day day =
     (case what_day day start_day of Inl e \<Rightarrow> False | Inr wd \<Rightarrow> fst wd = start_shift_day)"

definition rest_follow_keys ::
  "nurse_row list \<Rightarrow> int list \<Rightarrow> string \<Rightarrow> int \<Rightarrow> string \<Rightarrow> int \<Rightarrow> rest_key list" where
  "rest_follow_keys nurses days start_day num_days start_shift_day num_consecutive =
     [(nurse, day + num_consecutive + rest_offset).
        day \<leftarrow> days, is_block_start start_day start_shift_day day,
        nurse \<leftarrow> Nurse_column nurses, rest_offset \<leftarrow> py_range0 2,
        day + num_consecutive + rest_offset < num_days]"

section \<open>Models built by the library on a variable universe\<close>

text \<open>
  The models that can be reached from \<open>model0\<close> by calling rules of the library, with any
  parameters, on the dictionaries \<open>shifts\<close> and \<open>rest_days\<close>, together with the set of
  rest-day keys coupled so far: only \<open>assign_consecutive_shifts\<close> receives \<open>rest_days\<close>,
  and each call of it couples the keys of \<open>rest_follow_keys\<close>.
\<close>

inductive built ::
  "(shift_key, nat) dict \<Rightarrow> (rest_key, nat) dict \<Rightarrow> cp_model \<Rightarrow> rest_key set \<Rightarrow> cp_model \<Rightarrow> bool"
  for shifts :: "(shift_key, nat) dict" and rest_days :: "(rest_key, nat) dict"
    and model0 :: cp_model where
  built_start:
    "built shifts rest_days model0 {} model0"
| built_limit_shifts_per_period:
    "built shifts rest_days model0 coupled model \<Longrightarrow>
     limit_shifts_per_period model shifts nurses days daily_shifts period_length shift_limit
       = Inr model' \<Longrightarrow>
     built shifts rest_days model0 coupled model'"
| built_single_nurse_per_shift:
    "built shifts rest_days model0 coupled model \<Longrightarrow>
     single_nurse_per_shift model shifts nurses days daily_shifts = Inr model' \<Longrightarrow>
     built shifts rest_days model0 coupled model'"
| built_limit_nurse_per_team_per_day:
    "built shifts rest_days model0 coupled model \<Longrightarrow>
     limit_nurse_per_team_per_day model shifts nurses days daily_shifts nurse_limit
       = Inr model' \<Longrightarrow>
     built shifts rest_days model0 coupled model'"
| built_distribute_shifts_evenly:
    "built shifts rest_days model0 coupled model \<Longrightarrow>
     distribute_shifts_evenly model shifts nurses days daily_shifts num_nurses tolerance
       = Inr model' \<Longrightarrow>
     built shifts rest_days model0 coupled model'"
| built_max_shifts_per_week:
    "built shifts rest_days model0 coupled model \<Longrightarrow>
     max_shifts_per_week model shifts nurses days daily_shifts num_days shift_limit
       = Inr model' \<Longrightarrow>
     built shifts rest_days model0 coupled model'"
| built_limit_consecutive_shifts:
    "built shifts rest_days model0 coupled model \<Longrightarrow>
     limit_consecutive_shifts model shifts nurses days num_days limited_shifts num_consecutive
       = Inr model' \<Longrightarrow>
     built shifts rest_days model0 coupled model'"
| built_limit_shifts_after_shifts:
    "built shifts rest_days model0 coupled model \<Longrightarrow>
     limit_shifts_after_shifts model shifts nurses days first_shifts limited_shifts
       num_consecutive allowed_num_shifts = Inr model' \<Longrightarrow>
     built shifts rest_days model0 coupled model'"
| built_distribute_night_shifts_evenly:
    "built shifts rest_days model0 coupled model \<Longrightarrow>
     distribute_night_shifts_evenly model shifts nurses days num_nurses shift_index
       = Inr model' \<Longrightarrow>
     built shifts rest_days model0 coupled model'"
| built_assign_consecutive_shifts:
    "built shifts rest_days model0 coupled model \<Longrightarrow>
     assign_consecutive_shifts model shifts rest_days nurses days daily_shifts start_day
       num_days start_shift_day shift_index num_consecutive = Inr model' \<Longrightarrow>
     built shifts rest_days model0
       (coupled \<union> set (rest_follow_keys nurses days start_day num_days start_shift_day
                         num_consecutive))
       model'"

text \<open>The scheduler as constructed for one nurse and four days from a Monday.\<close>

definition demo4_self :: "unit NurseSchedulingModel" where
  "demo4_self =
     \<lparr>self_nurses = demo4_nurses, self_daily_shifts = [(0, ''ED Nights'')], self_num_days = 4,
      self_start_day = ''Monday'', self_all_days = [0, 1, 2, 3], self_num_nurses = 1,
      self_model = demo4_model, self_shifts = demo4_shifts, self_rest_days = demo4_rest_days,
      self_applied_constraints = [], self_solution = None, self_assigned_rests = None\<rparr>"

section \<open>Loops, lookups and growth\<close>

declare str_nat.simps [simp del]

lemma then_do_Inr_iff: "then_do r f = Inr y \<longleftrightarrow> (\<exists>x. r = Inr x \<and> f x = Inr y)"
  by (cases r) (auto simp: then_do_def)

lemma then_do_simps [simp]: "then_do (Inl e) f = Inl e" "then_do (Inr x) f = f x"
  by (simp_all add: then_do_def)

lemma for_each_append:
  "for_each (xs @ ys) body s = then_do (for_each xs body s) (for_each ys body)"
  by (induction xs arbitrary: s) (auto simp: then_do_def split: sum.splits)

lemma for_each_rel:
  assumes refl: "\<And>s. R s s"
    and trans: "\<And>a b c. R a b \<Longrightarrow> R b c \<Longrightarrow> R a c"
    and step: "\<And>x s s'. x \<in> set xs \<Longrightarrow> body x s = Inr s' \<Longrightarrow> R s s'"
    and run: "for_each xs body s = Inr s'"
  shows "R s s'"
  using step run
proof (induction xs arbitrary: s)
  case Nil
  then show ?case using refl by simp
next
  case (Cons x xs)
  from Cons.prems(2) obtain s1 where s1: "body x s = Inr s1" "for_each xs body s1 = Inr s'"
    by (auto simp: then_do_Inr_iff)
  have "R s s1" using Cons.prems(1) [of x s s1] s1(1) by simp
  moreover have "R s1 s'"
  proof (rule Cons.IH [OF _ s1(2)])
    fix y t t' assume "y \<in> set xs" "body y t = Inr t'"
    then show "R t t'" using Cons.prems(1) [of y t t'] by simp
  qed
  ultimately show ?case using trans by blast
qed

lemma for_each_member:
  assumes refl: "\<And>s. R s s"
    and trans: "\<And>a b c. R a b \<Longrightarrow> R b c \<Longrightarrow> R a c"
    and step: "\<And>x s s'. x \<in> set xs \<Longrightarrow> body x s = Inr s' \<Longrightarrow> R s s'"
    and run: "for_each xs body s = Inr s'"
    and mem: "x \<in> set xs"
  shows "\<exists>s1 s2. R s s1 \<and> body x s1 = Inr s2 \<and> R s2 s'"
proof -
  from mem obtain ys zs where xs: "xs = ys @ x # zs" by (auto simp: in_set_conv_decomp)
  from run obtain s1 where s1: "for_each ys body s = Inr s1" "for_each (x # zs) body s1 = Inr s'"
    unfolding xs for_each_append by (auto simp: then_do_Inr_iff)
  from s1(2) obtain s2 where s2: "body x s1 = Inr s2" "for_each zs body s2 = Inr s'"
    by (auto simp: then_do_Inr_iff)
  have "R s s1"
    by (rule for_each_rel [OF refl trans _ s1(1)]) (auto intro: step simp: xs)
  moreover have "R s2 s'"
    by (rule for_each_rel [OF refl trans _ s2(2)]) (auto intro: step simp: xs)
  ultimately show ?thesis using s2(1) by blast
qed


lemma extends_refl: "extends m m" by (simp add: extends_def)
lemma extends_trans: "extends a b \<Longrightarrow> extends b c \<Longrightarrow> extends a c"
  by (auto simp: extends_def)

lemma extends_add_ct: "extends m (add_ct c m)"
  by (simp add: extends_def add_ct_def)

lemma extends_NewBoolVar: "NewBoolVar name m = (x, m') \<Longrightarrow> extends m m'"
  by (auto simp: extends_def NewBoolVar_def)

lemma lookup_all_Inr:
  "lookup_all d ks = Inr vs \<longleftrightarrow> map (map_of d) ks = map Some vs"
proof (induction ks arbitrary: vs)
  case Nil
  then show ?case by auto
next
  case (Cons k ks)
  show ?case
    by (cases vs) (auto simp: then_do_Inr_iff dict_get_def Cons.IH split: option.splits)
qed

lemma exactly_one_unique:
  assumes "\<forall>x \<in> set xs. f x = (0::int) \<or> f x = 1" "sum_list (map f xs) = 1"
  shows "\<exists>!x. x \<in> set xs \<and> f x = 1"
  using assms
proof (induction xs)
  case Nil
  then show ?case by simp
next
  case (Cons a xs)
  have nonneg: "\<forall>x \<in> set xs. 0 \<le> f x" using Cons.prems(1) by auto
  show ?case
  proof (cases "f a = 1")
    case True
    with Cons.prems(2) have "sum_list (map f xs) = 0" by simp
    with nonneg have "\<forall>x \<in> set xs. f x = 0"
      using sum_list_nonneg_eq_0_iff [of "map f xs"] by auto
    with True show ?thesis by auto
  next
    case False
    with Cons.prems have a0: "f a = 0" and "sum_list (map f xs) = 1" by auto
    with Cons.IH Cons.prems(1) have "\<exists>!x. x \<in> set xs \<and> f x = 1" by simp
    with a0 show ?thesis by auto
  qed
qed

lemma lookup_all_the:
  assumes "lookup_all d ks = Inr vs"
  shows "vs = map (\<lambda>k. the (map_of d k)) ks" and "\<forall>k \<in> set ks. \<exists>x. map_of d k = Some x"
proof -
  from assms have eq: "map (map_of d) ks = map Some vs" by (simp add: lookup_all_Inr)
  then have len: "length ks = length vs" by (metis length_map)
  have nth: "\<And>i. i < length ks \<Longrightarrow> map_of d (ks ! i) = Some (vs ! i)"
    using eq len by (metis nth_map)
  show "vs = map (\<lambda>k. the (map_of d k)) ks"
    using len nth by (auto simp: list_eq_iff_nth_eq)
  show "\<forall>k \<in> set ks. \<exists>x. map_of d k = Some x"
    using nth by (auto simp: in_set_conv_nth)
qed

lemma map_of_dict_values: "map_of d k = Some x \<Longrightarrow> x \<in> set (dict_values d)"
  by (force simp: dict_values_def dest: map_of_SomeD)

lemma for_each_extends:
  assumes "for_each xs body s = Inr s'"
    and "\<And>x s s'. x \<in> set xs \<Longrightarrow> body x s = Inr s' \<Longrightarrow> extends s s'"
  shows "extends s s'"
  using for_each_rel [where R = extends, OF extends_refl extends_trans assms(2) assms(1)]
  by simp

lemma for_each_member_extends:
  assumes "for_each xs body s = Inr s'" and "x \<in> set xs"
    and "\<And>x s s'. x \<in> set xs \<Longrightarrow> body x s = Inr s' \<Longrightarrow> extends s s'"
  shows "\<exists>s1 s2. extends s s1 \<and> body x s1 = Inr s2 \<and> extends s2 s'"
  using for_each_member [where R = extends, OF extends_refl extends_trans assms(3) assms(1) assms(2)]
  by simp

lemma extends_length: "extends m m' \<Longrightarrow> length (variables m) \<le> length (variables m')"
  by (auto simp: extends_def dest: prefix_length_le)

lemma extends_constraints: "extends m m' \<Longrightarrow> set (constraints m) \<subseteq> set (constraints m')"
  by (auto simp: extends_def dest: set_mono_prefix)

lemma feasible_extends:
  assumes "feasible v final" "extends m final"
  shows "feasible v m"
proof -
  from assms(2) have "length (variables m) \<le> length (variables final)"
    and "set (constraints m) \<subseteq> set (constraints final)"
    by (simp_all add: extends_length extends_constraints)
  with assms(1) show ?thesis
    unfolding feasible_def by (auto simp: subset_iff)
qed

lemma single_body_extends:
  "then_do (lookup_all shifts ks) (\<lambda>xs. Inr (AddExactlyOne xs m)) = Inr m' \<Longrightarrow> extends m m'"
  by (auto simp: then_do_Inr_iff AddExactlyOne_def extends_add_ct)


section \<open>Properties of the calendar utility\<close>

lemma list_index_notin: "x \<notin> set xs \<Longrightarrow> list_index xs x = Inl ValueError"
  by (induction xs) auto

lemma list_index_in:
  "x \<in> set xs \<Longrightarrow> \<exists>i < length xs. list_index xs x = Inr i \<and> xs ! i = x"
proof (induction xs)
  case Nil
  then show ?case by simp
next
  case (Cons y ys)
  show ?case
  proof (cases "y = x")
    case True
    then show ?thesis by auto
  next
    case False
    with Cons.prems have "x \<in> set ys" by simp
    from Cons.IH [OF this] obtain i where "i < length ys" "list_index ys x = Inr i" "ys ! i = x"
      by blast
    with False show ?thesis by auto
  qed
qed

text \<open>
  The specification names ConfigurationError for a start day outside the seven names.
  The code raises what \<open>list.index\<close> raises, a ValueError.
\<close>

theorem what_day_error_counterexample:
  "what_day 3 ''Funday'' = Inl ValueError \<and> what_day 3 ''Funday'' \<noteq> Inl ConfigurationError"
  by (simp add: what_day_def days_of_week_def)

text \<open>
  C8 (amended). For a starting weekday among the seven canonical names, \<open>what_day\<close>
  returns the name at position \<open>(index_of(start) + day) mod 7\<close> of the Monday-first
  ordering, and the weekend flag is true exactly when that position is 5 or 6 (Saturday
  or Sunday); it returns for every integer day index, in particular for every index
  \<open>\<ge> 0\<close>. It fails exactly when the starting name is not canonical, and then with the
  \<open>ValueError\<close> of \<open>list.index\<close>: the source has no exception class of its own.
\<close>

theorem what_day_spec:
  "(start_day \<in> set days_of_week \<longrightarrow>
      (\<exists>i < 7. days_of_week ! i = start_day \<and>
         what_day day start_day =
           Inr (days_of_week ! nat ((int i + day) mod 7),
                nat ((int i + day) mod 7) \<in> {5, 6}))) \<and>
   (start_day \<notin> set days_of_week \<longrightarrow> what_day day start_day = Inl ValueError)"
proof (intro conjI impI)
  assume "start_day \<in> set days_of_week"
  from list_index_in [OF this] obtain i where
    i: "i < length days_of_week" "list_index days_of_week start_day = Inr i"
       "days_of_week ! i = start_day"
    by blast
  have len: "length days_of_week = 7" by (simp add: days_of_week_def)
  have rng: "0 \<le> (int i + day) mod 7" "(int i + day) mod 7 < 7" by simp_all
  have "((int i + day) mod 7 \<ge> 5) = (nat ((int i + day) mod 7) \<in> {5, 6})"
    using rng by auto
  with i len show "\<exists>i < 7. days_of_week ! i = start_day \<and>
         what_day day start_day =
           Inr (days_of_week ! nat ((int i + day) mod 7),
                nat ((int i + day) mod 7) \<in> {5, 6})"
    by (auto simp: what_day_def Let_def)
next
  assume "start_day \<notin> set days_of_week"
  then show "what_day day start_day = Inl ValueError"
    by (simp add: what_day_def list_index_notin)
qed

theorem what_day_spec_witness:
  "''Wednesday'' \<in> set days_of_week \<and>
   what_day 9 ''Wednesday'' = Inr (''Friday'', False) \<and>
   what_day 10 ''Wednesday'' = Inr (''Saturday'', True) \<and>
   ''Funday'' \<notin> set days_of_week \<and> what_day 3 ''Funday'' = Inl ValueError"
  using what_day_spec [of "''Wednesday''" 9] what_day_spec [of "''Funday''" 3]
  by (simp add: what_day_def days_of_week_def)

section \<open>Coverage: single_nurse_per_shift\<close>

text \<open>
  C1. For every day of the horizon and every shift type, \<open>single_nurse_per_shift\<close> adds the
  exactly-one constraint over the nurses' shift variables of that (day, shift type), and
  nothing is removed from the model. Consequently, in every assignment that satisfies
  the model after the rule, or any model grown from it by further rules, exactly one
  nurse's variable \<open>x[nurse, day, shift]\<close> is 1. The shift variables are assumed to be
  variables of the model, as they are after construction.
\<close>

theorem single_nurse_per_shift_exactly_one:
  assumes run: "single_nurse_per_shift model shifts nurses days daily_shifts = Inr model'"
    and vars: "\<forall>x \<in> set (dict_values shifts). x < length (variables model)"
    and day: "day \<in> set days" and shift: "shift \<in> set (keys daily_shifts)"
  shows "\<exists>xs. lookup_all shifts [(nurse, day, shift). nurse \<leftarrow> Nurse_column nurses] = Inr xs \<and>
           Constraint (ExactlyOne xs) [] \<in> set (constraints model') \<and>
           extends model model' \<and>
           (\<forall>final v. extends model' final \<and> feasible v final \<longrightarrow>
              (\<exists>!nurse. nurse \<in> set (Nurse_column nurses) \<and>
                         value_is_1 v shifts (nurse, day, shift)))"
proof -
  let ?inner = "\<lambda>day. for_each (keys daily_shifts) (\<lambda>shift m.
         then_do (lookup_all shifts [(nurse, day, shift). nurse \<leftarrow> Nurse_column nurses])
           (\<lambda>xs. Inr (AddExactlyOne xs m)))"
  have inner_ext: "\<And>d s s'. ?inner d s = Inr s' \<Longrightarrow> extends s s'"
    by (erule for_each_extends) (auto dest: single_body_extends)
  from run have run': "for_each days ?inner model = Inr model'"
    by (simp add: single_nurse_per_shift_def)
  have ext: "extends model model'"
    by (rule for_each_extends [OF run']) (rule inner_ext)
  from for_each_member_extends [OF run' day] inner_ext
  obtain m1 m2 where m12: "extends model m1" "?inner day m1 = Inr m2" "extends m2 model'"
    by blast
  from for_each_member_extends [OF m12(2) shift] single_body_extends
  obtain m3 m4 where m34: "extends m1 m3"
      "then_do (lookup_all shifts [(nurse, day, shift). nurse \<leftarrow> Nurse_column nurses])
           (\<lambda>xs. Inr (AddExactlyOne xs m3)) = Inr m4" "extends m4 m2"
    by blast
  from m34(2) obtain xs where xs:
      "lookup_all shifts [(nurse, day, shift). nurse \<leftarrow> Nurse_column nurses] = Inr xs"
      "m4 = AddExactlyOne xs m3"
    by (auto simp: then_do_Inr_iff)
  have "Constraint (ExactlyOne xs) [] \<in> set (constraints m4)"
    by (simp add: xs(2) AddExactlyOne_def add_ct_def)
  moreover have "extends m4 model'" using m34(3) m12(3) extends_trans by blast
  ultimately have mem: "Constraint (ExactlyOne xs) [] \<in> set (constraints model')"
    by (auto simp: extends_def dest: set_mono_prefix)
  have sem: "\<exists>!nurse. nurse \<in> set (Nurse_column nurses) \<and> value_is_1 v shifts (nurse, day, shift)"
    if fin: "extends model' final" "feasible v final" for final v
  proof -
    let ?f = "\<lambda>nurse. v (the (map_of shifts (nurse, day, shift)))"
    from lookup_all_the [OF xs(1)]
    have xs_eq: "xs = map (\<lambda>n. the (map_of shifts (n, day, shift))) (Nurse_column nurses)"
      and def: "\<forall>n \<in> set (Nurse_column nurses). \<exists>x. map_of shifts (n, day, shift) = Some x"
      by (simp_all add: comp_def)
    have feas: "feasible v model'" using fin feasible_extends by blast
    with mem have "satisfied v (Constraint (ExactlyOne xs) [])" by (auto simp: feasible_def)
    then have sum1: "sum_list (map ?f (Nurse_column nurses)) = 1"
      by (simp add: xs_eq comp_def)
    have len: "length (variables model) \<le> length (variables model')"
      using ext by (auto simp: extends_def dest: prefix_length_le)
    have bool: "\<forall>n \<in> set (Nurse_column nurses). ?f n = 0 \<or> ?f n = 1"
    proof
      fix n assume "n \<in> set (Nurse_column nurses)"
      with def obtain x where x: "map_of shifts (n, day, shift) = Some x" by blast
      with vars have "x < length (variables model)" by (auto dest: map_of_dict_values)
      with len have "x < length (variables model')" by simp
      with feas have "v x = 0 \<or> v x = 1" by (simp add: feasible_def)
      with x show "?f n = 0 \<or> ?f n = 1" by simp
    qed
    from exactly_one_unique [OF bool sum1]
    have "\<exists>!n. n \<in> set (Nurse_column nurses) \<and> ?f n = 1" .
    moreover have "\<And>n. n \<in> set (Nurse_column nurses) \<Longrightarrow>
        value_is_1 v shifts (n, day, shift) = (?f n = 1)"
      using def by (auto simp: value_is_1_def)
    ultimately show ?thesis by (auto cong: conj_cong)
  qed
  from xs(1) mem ext sem show ?thesis by blast
qed

theorem single_nurse_per_shift_exactly_one_witness:
  "single_nurse_per_shift demo_model demo_shifts demo_nurses [0] [(0, ''Day'')] =
     Inr (demo_model\<lparr>constraints := [Constraint (ExactlyOne [0, 1]) []]\<rparr>) \<and>
   feasible (\<lambda>x. if x = 1 then 1 else 0)
     (demo_model\<lparr>constraints := [Constraint (ExactlyOne [0, 1]) []]\<rparr>) \<and>
   (\<exists>!nurse. nurse \<in> set (Nurse_column demo_nurses) \<and>
       value_is_1 (\<lambda>x. if x = 1 then 1 else 0) demo_shifts (nurse, 0, 0))"
proof -
  let ?m' = "demo_model\<lparr>constraints := [Constraint (ExactlyOne [0, 1]) []]\<rparr>"
  let ?v = "\<lambda>x::nat. if x = 1 then 1 else (0::int)"
  have run: "single_nurse_per_shift demo_model demo_shifts demo_nurses [0] [(0, ''Day'')] = Inr ?m'"
    by (simp add: single_nurse_per_shift_def demo_model_def demo_shifts_def demo_nurses_def
        keys_def Nurse_column_def dict_get_def AddExactlyOne_def add_ct_def)
  have vars: "\<forall>x \<in> set (dict_values demo_shifts). x < length (variables demo_model)"
    by (simp add: demo_shifts_def demo_model_def dict_values_def)
  have feas: "feasible ?v ?m'"
    by (simp add: feasible_def demo_model_def)
  from single_nurse_per_shift_exactly_one [OF run vars, of 0 0]
  have "\<forall>final v. extends ?m' final \<and> feasible v final \<longrightarrow>
          (\<exists>!nurse. nurse \<in> set (Nurse_column demo_nurses) \<and>
                     value_is_1 v demo_shifts (nurse, 0, 0))"
    by (auto simp: keys_def)
  with feas extends_refl have "\<exists>!nurse. nurse \<in> set (Nurse_column demo_nurses) \<and>
       value_is_1 ?v demo_shifts (nurse, 0, 0)"
    by blast
  with run feas show ?thesis by blast
qed

section \<open>Even distribution: distribute_shifts_evenly\<close>

lemma fair_min_div: "fair_min s d m = (int s * int d) div m"
proof -
  have "real s * real d = real_of_int (int s * int d)" by simp
  then show ?thesis unfolding fair_min_def by (simp only: floor_divide_of_int_eq)
qed

lemma fair_max_div:
  "fair_max s d m t = (if (int s * int d) mod m = 0 then (int s * int d) div m
                       else (int s * int d) div m + t)"
  by (simp add: fair_max_def fair_min_div dvd_eq_mod_eq_0)

lemma assigned_count_lookup:
  assumes "lookup_all d ks = Inr xs"
  shows "assigned_count v d ks = sum_list (map v xs)"
proof -
  from lookup_all_the [OF assms]
  have xs: "xs = map (\<lambda>k. the (map_of d k)) ks" and def: "\<forall>k \<in> set ks. \<exists>x. map_of d k = Some x"
    by simp_all
  have "map (\<lambda>k. case map_of d k of None \<Rightarrow> 0 | Some x \<Rightarrow> v x) ks = map (\<lambda>k. v (the (map_of d k))) ks"
    using def by (auto split: option.splits)
  then show ?thesis by (simp only: assigned_count_def xs map_map comp_def)
qed

lemma evenly_body_extends:
  "then_do (lookup_all shifts ks) (\<lambda>xs. Inr (Add (Linear xs LE hi) (Add (Linear xs GE lo) m))) = Inr m'
     \<Longrightarrow> extends m m'"
  by (auto simp: then_do_Inr_iff Add_def intro: extends_trans extends_add_ct)

text \<open>
  C5. For a positive nurse count, \<open>distribute_shifts_evenly\<close> adds for each nurse of the
  roster the two constraints \<open>total \<ge> min\<close> and \<open>total \<le> max\<close> on the sum of the nurse's
  variables over the day subset and the shift subset, where \<open>min\<close> and \<open>max\<close> are the bounds
  of the specification; every assignment that satisfies the resulting model keeps each
  nurse's total within \<open>[min, max]\<close>. For 10 days, 3 nurses, 1 shift type and tolerance 1
  the bounds are 3 and 4.
\<close>

theorem distribute_shifts_evenly_bounds:
  assumes run: "distribute_shifts_evenly model shifts nurses days daily_shifts num_nurses tolerance
                  = Inr model'"
    and pos: "0 < num_nurses"
    and nurse: "nurse \<in> set (Nurse_column nurses)"
  shows "\<exists>xs. lookup_all shifts [(nurse, day, shift). day \<leftarrow> days, shift \<leftarrow> keys daily_shifts] = Inr xs \<and>
           Constraint (Linear xs GE (fair_min (length daily_shifts) (length days) num_nurses)) []
             \<in> set (constraints model') \<and>
           Constraint (Linear xs LE
               (fair_max (length daily_shifts) (length days) num_nurses tolerance)) []
             \<in> set (constraints model') \<and>
           (\<forall>final v. extends model' final \<and> feasible v final \<longrightarrow>
              fair_min (length daily_shifts) (length days) num_nurses
                \<le> assigned_count v shifts
                     [(nurse, day, shift). day \<leftarrow> days, shift \<leftarrow> keys daily_shifts] \<and>
              assigned_count v shifts
                     [(nurse, day, shift). day \<leftarrow> days, shift \<leftarrow> keys daily_shifts]
                \<le> fair_max (length daily_shifts) (length days) num_nurses tolerance) \<and>
           fair_min 1 10 3 = 3 \<and> fair_max 1 10 3 1 = 4"
proof -
  let ?lo = "fair_min (length daily_shifts) (length days) num_nurses"
  let ?hi = "fair_max (length daily_shifts) (length days) num_nurses tolerance"
  let ?ks = "\<lambda>nurse. [(nurse, day, shift). day \<leftarrow> days, shift \<leftarrow> keys daily_shifts]"
  let ?body = "\<lambda>nurse m. then_do (lookup_all shifts (?ks nurse))
                   (\<lambda>xs. Inr (Add (Linear xs LE ?hi) (Add (Linear xs GE ?lo) m)))"
  from pos have nz: "num_nurses \<noteq> 0" by simp
  have lo: "(int (length daily_shifts) * int (length days)) div num_nurses = ?lo"
    by (simp add: fair_min_div)
  have hi: "(if (int (length daily_shifts) * int (length days)) mod num_nurses = 0 then ?lo
             else ?lo + tolerance) = ?hi"
    by (simp add: fair_max_div fair_min_div)
  from run have run': "for_each (Nurse_column nurses) ?body model = Inr model'"
    unfolding distribute_shifts_evenly_def Let_def lo hi using nz by (simp only: if_False)
  from for_each_member_extends [OF run' nurse] evenly_body_extends
  obtain m1 m2 where m12: "extends model m1" "?body nurse m1 = Inr m2" "extends m2 model'"
    by blast
  from m12(2) obtain xs where xs: "lookup_all shifts (?ks nurse) = Inr xs"
      "m2 = Add (Linear xs LE ?hi) (Add (Linear xs GE ?lo) m1)"
    by (auto simp: then_do_Inr_iff)
  have "Constraint (Linear xs GE ?lo) [] \<in> set (constraints m2)"
    and "Constraint (Linear xs LE ?hi) [] \<in> set (constraints m2)"
    by (simp_all add: xs(2) Add_def add_ct_def)
  with m12(3) have mem: "Constraint (Linear xs GE ?lo) [] \<in> set (constraints model')"
      "Constraint (Linear xs LE ?hi) [] \<in> set (constraints model')"
    using extends_constraints by blast+
  have sem: "?lo \<le> assigned_count v shifts (?ks nurse) \<and> assigned_count v shifts (?ks nurse) \<le> ?hi"
    if fin: "extends model' final" "feasible v final" for final v
  proof -
    have feas: "feasible v model'" using fin feasible_extends by blast
    with mem have "satisfied v (Constraint (Linear xs GE ?lo) [])"
      and "satisfied v (Constraint (Linear xs LE ?hi) [])"
      by (auto simp: feasible_def)
    then show ?thesis
      by (simp add: assigned_count_lookup [OF xs(1)] compare_def)
  qed
  have ex: "fair_min 1 10 3 = 3" "fair_max 1 10 3 1 = 4"
    by (simp_all add: fair_max_div fair_min_div)
  from xs(1) mem sem ex show ?thesis by blast
qed

lemma demo10_run:
  "distribute_shifts_evenly demo10_model demo10_shifts demo10_nurses (py_range0 10)
     [(0, ''ED Day 01'')] 3 1 = Inr demo10_result"
  by (simp add: distribute_shifts_evenly_def demo10_model_def demo10_shifts_def demo10_nurses_def
      demo10_result_def py_range0_def py_range_def keys_def Nurse_column_def dict_get_def
      Add_def add_ct_def Let_def upt_rec)

theorem distribute_shifts_evenly_bounds_witness:
  "distribute_shifts_evenly demo10_model demo10_shifts demo10_nurses (py_range0 10)
     [(0, ''ED Day 01'')] 3 1 = Inr demo10_result \<and>
   (0::int) < 3 \<and> 1 \<in> set (Nurse_column demo10_nurses) \<and>
   Constraint (Linear [10..<20] GE 3) [] \<in> set (constraints demo10_result) \<and>
   Constraint (Linear [10..<20] LE 4) [] \<in> set (constraints demo10_result)"
proof -
  have pos: "(0::int) < 3" by simp
  have nurse: "1 \<in> set (Nurse_column demo10_nurses)"
    by (simp add: demo10_nurses_def Nurse_column_def)
  have look: "lookup_all demo10_shifts
       [(1, day, shift). day \<leftarrow> py_range0 10, shift \<leftarrow> keys [(0::int, ''ED Day 01'')]]
       = Inr [10..<20]"
    by (simp add: demo10_shifts_def py_range0_def py_range_def keys_def dict_get_def upt_rec)
  have bounds: "fair_min (length [(0::int, ''ED Day 01'')]) (length (py_range0 10)) 3 = 3"
     "fair_max (length [(0::int, ''ED Day 01'')]) (length (py_range0 10)) 3 1 = 4"
    by (simp_all add: fair_min_div fair_max_div py_range0_def py_range_def)
  from distribute_shifts_evenly_bounds [OF demo10_run pos nurse]
  have "Constraint (Linear [10..<20] GE 3) [] \<in> set (constraints demo10_result) \<and>
        Constraint (Linear [10..<20] LE 4) [] \<in> set (constraints demo10_result)"
    unfolding look bounds by blast
  with demo10_run pos nurse show ?thesis by blast
qed

section \<open>Solving: solve\<close>

lemma what_day_total:
  assumes "start_day \<in> set days_of_week"
  shows "\<exists>name w. what_day day start_day = Inr (name, w)"
proof -
  from list_index_in [OF assms] obtain i where "list_index days_of_week start_day = Inr i"
    by blast
  then show ?thesis by (simp add: what_day_def Let_def)
qed

lemma weekend_column_canonical:
  assumes "start_day \<in> set days_of_week"
  shows "\<exists>sol. weekend_column start_day rows = Inr sol \<and>
           map (\<lambda>(n, d, s, w). (n, d, s)) sol = rows \<and>
           (\<forall>(n, d, s, w) \<in> set sol. \<exists>name. what_day d start_day = Inr (name, w))"
proof (induction rows)
  case Nil
  then show ?case by simp
next
  case (Cons row rows)
  obtain n d s where row: "row = (n, d, s)" by (cases row)
  from what_day_total [OF assms, of d] obtain name w where wd: "what_day d start_day = Inr (name, w)"
    by blast
  from Cons.IH obtain sol where sol: "weekend_column start_day rows = Inr sol"
      "map (\<lambda>(n, d, s, w). (n, d, s)) sol = rows"
      "\<forall>(n, d, s, w) \<in> set sol. \<exists>name. what_day d start_day = Inr (name, w)"
    by blast
  have "weekend_column start_day (row # rows) = Inr ((n, d, s, w) # sol)"
    by (simp add: row wd sol(1))
  with sol wd row show ?case by auto
qed


text \<open>What \<open>solve\<close> has done when it returns.\<close>

lemma solve_Inr:
  assumes "solve (status, Value) self = Inr solved"
  shows "status = OPTIMAL"
    and "self_assigned_rests solved =
           Some (filter (value_is_1 Value (self_rest_days self)) (keys (self_rest_days self)))"
    and "\<exists>solution. self_solution solved = Some solution \<and>
           weekend_column (self_start_day self)
             (filter (value_is_1 Value (self_shifts self)) (keys (self_shifts self)))
             = Inr solution"
proof -
  show o: "status = OPTIMAL"
    using assms by (cases "status = OPTIMAL") (simp_all add: solve_def)
  from assms o obtain solution where
    w: "weekend_column (self_start_day self)
          (filter (value_is_1 Value (self_shifts self)) (keys (self_shifts self))) = Inr solution"
    and s: "solved = self\<lparr>self_solution := Some solution,
              self_assigned_rests :=
                Some (filter (value_is_1 Value (self_rest_days self))
                        (keys (self_rest_days self)))\<rparr>"
    by (auto simp: solve_def Let_def then_do_Inr_iff)
  show "self_assigned_rests solved =
           Some (filter (value_is_1 Value (self_rest_days self)) (keys (self_rest_days self)))"
    by (simp add: s)
  show "\<exists>solution. self_solution solved = Some solution \<and>
           weekend_column (self_start_day self)
             (filter (value_is_1 Value (self_shifts self)) (keys (self_shifts self)))
             = Inr solution"
    using w by (simp add: s)
qed

lemma solve_basis_Inr:
  assumes "solve_basis (status, Value) self = Inr solved"
  shows "status = OPTIMAL"
    and "self_assigned_rests solved =
           Some (filter (value_is_1 Value (self_rest_days self)) (keys (self_rest_days self)))"
proof -
  show o: "status = OPTIMAL"
    using assms by (cases "status = OPTIMAL") (simp_all add: solve_basis_def)
  from assms o show "self_assigned_rests solved =
           Some (filter (value_is_1 Value (self_rest_days self)) (keys (self_rest_days self)))"
    by (auto simp: solve_basis_def Let_def then_do_Inr_iff)
qed

text \<open>
  When \<open>solve\<close> returns on an OPTIMAL answer: the Weekend column needs a canonical start
  day, and the rota of \<open>scheduler.py\<close> needs at most one nurse per (day, shift) and as
  many assigned shift values as there are shift types.
\<close>

lemma solve_basis_optimal:
  assumes sd: "self_start_day self \<in> set days_of_week"
  shows "\<exists>solution.
           solve_basis (OPTIMAL, Value) self =
             Inr (self\<lparr>self_solution := Some solution,
                       self_assigned_rests :=
                         Some (filter (value_is_1 Value (self_rest_days self))
                                 (keys (self_rest_days self)))\<rparr>) \<and>
           weekend_column (self_start_day self)
             (filter (value_is_1 Value (self_shifts self)) (keys (self_shifts self)))
             = Inr solution"
proof -
  let ?rota = "filter (value_is_1 Value (self_shifts self)) (keys (self_shifts self))"
  from weekend_column_canonical [OF sd, of ?rota]
  obtain sol where "weekend_column (self_start_day self) ?rota = Inr sol" by blast
  then show ?thesis by (simp add: solve_basis_def Let_def)
qed

lemma solve_rota_ok:
  assumes sd: "self_start_day self \<in> set days_of_week"
    and d: "distinct (map (\<lambda>(n, d, s). (d, s))
              (filter (value_is_1 Value (self_shifts self)) (keys (self_shifts self))))"
    and l: "length (remdups (map (\<lambda>(n, d, s). s)
              (filter (value_is_1 Value (self_shifts self)) (keys (self_shifts self)))))
            = length (self_daily_shifts self)"
  shows "solve (OPTIMAL, Value) self = solve_basis (OPTIMAL, Value) self"
  using d l
  by (simp add: solve_def solve_basis_def Let_def pivot_Day_Shift_def set_columns_def
      dict_values_def)







section \<open>Construction: the variable universe\<close>

lemma dict_set_fresh: "k \<notin> fst ` set d \<Longrightarrow> dict_set k v d = d @ [(k, v)]"
  unfolding dict_set_def by (induction d) auto

lemma new_bool_vars_model:
  "new_bool_vars name ks d m = (d', m') \<Longrightarrow>
     variables m' = variables m @ map name ks \<and> constraints m' = constraints m"
proof (induction ks arbitrary: d m)
  case Nil
  then show ?case by simp
next
  case (Cons k ks)
  then show ?case by (auto simp: NewBoolVar_def)
qed

lemma new_bool_vars_distinct:
  assumes "distinct ks" "set ks \<inter> fst ` set d = {}"
  shows "fst (new_bool_vars name ks d m) =
           d @ zip ks [length (variables m)..<length (variables m) + length ks]"
  using assms
proof (induction ks arbitrary: d m)
  case Nil
  then show ?case by simp
next
  case (Cons k ks)
  let ?n = "length (variables m)"
  let ?m1 = "m\<lparr>variables := variables m @ [name k]\<rparr>"
  from Cons.prems have fresh: "k \<notin> fst ` set d" by auto
  from Cons.prems have disj: "set ks \<inter> fst ` set (d @ [(k, ?n)]) = {}" and dist: "distinct ks"
    by auto
  have "fst (new_bool_vars name (k # ks) d m) = fst (new_bool_vars name ks (d @ [(k, ?n)]) ?m1)"
    by (simp add: NewBoolVar_def dict_set_fresh [OF fresh])
  also have "\<dots> = (d @ [(k, ?n)]) @ zip ks [Suc ?n..<Suc ?n + length ks]"
    using Cons.IH [OF dist disj, of ?m1] by simp
  also have "\<dots> = d @ zip (k # ks) [?n..<?n + length (k # ks)]"
  proof -
    have "[?n..<?n + length (k # ks)] = ?n # [Suc ?n..<Suc ?n + length ks]"
      by (simp del: upt_Suc add: upt_conv_Cons)
    then show ?thesis by (simp del: upt_Suc)
  qed
  finally show ?case .
qed

lemma length_shift_keys:
  "length (shift_keys nurses days daily_shifts) = length nurses * length days * length daily_shifts"
  by (induction nurses)
     (simp_all add: shift_keys_def Nurse_column_def keys_def length_concat comp_def
        sum_list_triv algebra_simps)

lemma length_rest_keys: "length (rest_keys nurses days) = length nurses * length days"
  by (simp add: rest_keys_def Nurse_column_def length_concat comp_def sum_list_triv)

lemma length_py_range0: "length (py_range0 n) = nat n"
  by (simp add: py_range0_def py_range_def)

lemma distinct_py_range: "distinct (py_range a b)"
  by (simp add: py_range_def distinct_map inj_on_def)

lemma distinct_pairs:
  assumes "distinct xs" "distinct ys"
  shows "distinct [(x, y). x \<leftarrow> xs, y \<leftarrow> ys]"
  using assms
  by (induction xs) (auto simp: distinct_map inj_on_def)

lemma distinct_shift_keys:
  assumes "distinct (Nurse_column nurses)" "distinct days" "distinct (keys daily_shifts)"
  shows "distinct (shift_keys nurses days daily_shifts)"
proof -
  have "shift_keys nurses days daily_shifts =
          [(n, p). n \<leftarrow> Nurse_column nurses, p \<leftarrow> [(d, s). d \<leftarrow> days, s \<leftarrow> keys daily_shifts]]"
    by (simp add: shift_keys_def map_concat comp_def)
  then show ?thesis using assms by (simp only: distinct_pairs)
qed

lemma distinct_rest_keys:
  "distinct (Nurse_column nurses) \<Longrightarrow> distinct days \<Longrightarrow> distinct (rest_keys nurses days)"
  unfolding rest_keys_def by (rule distinct_pairs)


lemma keys_zip: "length ks = length vs \<Longrightarrow> keys (zip ks vs) = ks"
  by (simp add: keys_def)

lemma dict_values_zip: "length ks = length vs \<Longrightarrow> dict_values (zip ks vs) = vs"
  by (simp add: dict_values_def)

theorem post_init_no_check_counterexample:
  "post_init [] [(0, ''Day'')] 7 ''Monday'' =
     Inr (\<lparr>self_nurses = [], self_daily_shifts = [(0, ''Day'')], self_num_days = 7,
           self_start_day = ''Monday'', self_all_days = [0, 1, 2, 3, 4, 5, 6],
           self_num_nurses = 0, self_model = \<lparr>variables = [], constraints = []\<rparr>,
           self_shifts = [], self_rest_days = [], self_applied_constraints = [],
           self_solution = None, self_assigned_rests = None\<rparr> :: unit NurseSchedulingModel) \<and>
   post_init demo_nurses [(0, ''Day'')] 0 ''Monday'' =
     Inr (\<lparr>self_nurses = demo_nurses, self_daily_shifts = [(0, ''Day'')], self_num_days = 0,
           self_start_day = ''Monday'', self_all_days = [],
           self_num_nurses = 2, self_model = \<lparr>variables = [], constraints = []\<rparr>,
           self_shifts = [], self_rest_days = [], self_applied_constraints = [],
           self_solution = None, self_assigned_rests = None\<rparr> :: unit NurseSchedulingModel) \<and>
   post_init demo_nurses [] 1 ''Monday'' =
     Inr (\<lparr>self_nurses = demo_nurses, self_daily_shifts = [], self_num_days = 1,
           self_start_day = ''Monday'', self_all_days = [0],
           self_num_nurses = 2,
           self_model = \<lparr>variables = [''rest_n1_d0'', ''rest_n2_d0''], constraints = []\<rparr>,
           self_shifts = [], self_rest_days = [((1, 0), 0), ((2, 0), 1)],
           self_applied_constraints = [],
           self_solution = None, self_assigned_rests = None\<rparr> :: unit NurseSchedulingModel)"
  by (simp add: post_init_def py_range0_def py_range_def shift_keys_def rest_keys_def
      Nurse_column_def keys_def CpModel_def demo_nurses_def NewBoolVar_def dict_set_def
      rest_name_def str_int_def str_nat.simps upt_rec)

text \<open>
  C7 (amended). Construction never fails: the source checks none of its arguments. For
  every roster, shift-type mapping and horizon it creates exactly
  \<open>|nurses| * |days| * |shifts|\<close> shift variables and \<open>|nurses| * |days|\<close> rest variables,
  where \<open>|days|\<close> is the horizon, or 0 for a horizon \<open>\<le> 0\<close>, and adds no constraint and
  has no other effect; an empty roster, an empty mapping or a non-positive horizon give
  an empty universe of shift variables. When the nurse identifiers are distinct (the
  keys of the mapping are, being those of a dict), each variable is stored under its own
  (nurse, day[, shift]) key, all keys and all variables distinct.
\<close>

theorem post_init_universe:
  "\<exists>s :: 'p NurseSchedulingModel. post_init nurses daily_shifts num_days start_day = Inr s \<and>
     length (variables (self_model s)) =
       length nurses * nat num_days * length daily_shifts + length nurses * nat num_days \<and>
     constraints (self_model s) = [] \<and> self_applied_constraints s = [] \<and>
     self_solution s = None \<and> self_assigned_rests s = None \<and>
     (distinct (Nurse_column nurses) \<and> distinct (keys daily_shifts) \<longrightarrow>
        self_shifts s =
          zip (shift_keys nurses (py_range0 num_days) daily_shifts)
              [0..<length nurses * nat num_days * length daily_shifts] \<and>
        self_rest_days s =
          zip (rest_keys nurses (py_range0 num_days))
              [length nurses * nat num_days * length daily_shifts..<
               length nurses * nat num_days * length daily_shifts + length nurses * nat num_days] \<and>
        length (self_shifts s) = length nurses * nat num_days * length daily_shifts \<and>
        length (self_rest_days s) = length nurses * nat num_days \<and>
        distinct (keys (self_shifts s)) \<and> distinct (keys (self_rest_days s)) \<and>
        distinct (dict_values (self_shifts s) @ dict_values (self_rest_days s)))"
proof -
  let ?days = "py_range0 num_days"
  let ?sk = "shift_keys nurses ?days daily_shifts"
  let ?rk = "rest_keys nurses ?days"
  let ?NS = "length nurses * nat num_days * length daily_shifts"
  let ?NR = "length nurses * nat num_days"
  obtain shifts m1 where r1: "new_bool_vars shift_name ?sk [] CpModel = (shifts, m1)"
    by (cases "new_bool_vars shift_name ?sk [] CpModel")
  obtain rest_days m2 where r2: "new_bool_vars rest_name ?rk [] m1 = (rest_days, m2)"
    by (cases "new_bool_vars rest_name ?rk [] m1")
  let ?s = "\<lparr>self_nurses = nurses, self_daily_shifts = daily_shifts,
              self_num_days = num_days, self_start_day = start_day,
              self_all_days = ?days, self_num_nurses = int (length nurses),
              self_model = m2, self_shifts = shifts, self_rest_days = rest_days,
              self_applied_constraints = [], self_solution = None,
              self_assigned_rests = None\<rparr> :: 'p NurseSchedulingModel"
  have run: "post_init nurses daily_shifts num_days start_day = Inr ?s"
    by (simp add: post_init_def Let_def r1 r2)
  have lsk: "length ?sk = ?NS" by (simp add: length_shift_keys length_py_range0)
  have lrk: "length ?rk = ?NR" by (simp add: length_rest_keys length_py_range0)
  from new_bool_vars_model [OF r1]
  have m1: "variables m1 = map shift_name ?sk" "constraints m1 = []"
    by (simp_all add: CpModel_def)
  from new_bool_vars_model [OF r2] m1
  have m2: "variables m2 = map shift_name ?sk @ map rest_name ?rk" "constraints m2 = []"
    by simp_all
  have len: "length (variables m2) = ?NS + ?NR" by (simp add: m2 lsk lrk)
  have dicts: "shifts = zip ?sk [0..<?NS] \<and> rest_days = zip ?rk [?NS..<?NS + ?NR] \<and>
        length shifts = ?NS \<and> length rest_days = ?NR \<and>
        distinct (keys shifts) \<and> distinct (keys rest_days) \<and>
        distinct (dict_values shifts @ dict_values rest_days)"
    if d: "distinct (Nurse_column nurses)" "distinct (keys daily_shifts)"
  proof -
    have dd: "distinct ?days" by (simp add: py_range0_def distinct_py_range)
    have dsk: "distinct ?sk" by (rule distinct_shift_keys [OF d(1) dd d(2)])
    have drk: "distinct ?rk" by (rule distinct_rest_keys [OF d(1) dd])
    from new_bool_vars_distinct [OF dsk, of "[]" shift_name CpModel] r1
    have sh: "shifts = zip ?sk [0..<?NS]" by (simp add: CpModel_def lsk)
    from new_bool_vars_distinct [OF drk, of "[]" rest_name m1] r2
    have rs: "rest_days = zip ?rk [?NS..<?NS + ?NR]" by (simp add: m1 lsk lrk)
    have ksh: "keys shifts = ?sk" unfolding sh by (rule keys_zip) (simp add: lsk)
    have krs: "keys rest_days = ?rk" unfolding rs by (rule keys_zip) (simp add: lrk)
    have vsh: "dict_values shifts = [0..<?NS]" unfolding sh by (rule dict_values_zip) (simp add: lsk)
    have vrs: "dict_values rest_days = [?NS..<?NS + ?NR]"
      unfolding rs by (rule dict_values_zip) (simp add: lrk)
    have "length shifts = ?NS" unfolding sh by (simp add: lsk)
    moreover have "length rest_days = ?NR" unfolding rs by (simp add: lrk)
    moreover have "distinct (dict_values shifts @ dict_values rest_days)"
      unfolding vsh vrs by auto
    ultimately show ?thesis using sh rs dsk drk ksh krs by simp
  qed
  have sel: "self_model ?s = m2" "self_shifts ?s = shifts" "self_rest_days ?s = rest_days"
      "self_applied_constraints ?s = []" "self_solution ?s = None"
      "self_assigned_rests ?s = None"
    by simp_all
  have "post_init nurses daily_shifts num_days start_day = Inr ?s \<and>
     length (variables (self_model ?s)) = ?NS + ?NR \<and>
     constraints (self_model ?s) = [] \<and> self_applied_constraints ?s = [] \<and>
     self_solution ?s = None \<and> self_assigned_rests ?s = None \<and>
     (distinct (Nurse_column nurses) \<and> distinct (keys daily_shifts) \<longrightarrow>
        self_shifts ?s = zip ?sk [0..<?NS] \<and>
        self_rest_days ?s = zip ?rk [?NS..<?NS + ?NR] \<and>
        length (self_shifts ?s) = ?NS \<and> length (self_rest_days ?s) = ?NR \<and>
        distinct (keys (self_shifts ?s)) \<and> distinct (keys (self_rest_days ?s)) \<and>
        distinct (dict_values (self_shifts ?s) @ dict_values (self_rest_days ?s)))"
    unfolding sel using run len m2(2) dicts by blast
  then show ?thesis by (rule exI)
qed

theorem post_init_universe_witness:
  "distinct (Nurse_column demo_nurses) \<and> distinct (keys [(0::int, ''Day'')]) \<and>
   (\<exists>s :: unit NurseSchedulingModel.
      post_init demo_nurses [(0, ''Day'')] 1 ''Monday'' = Inr s \<and>
      length (variables (self_model s)) = 4 \<and>
      self_shifts s = [((1, 0, 0), 0), ((2, 0, 0), 1)] \<and>
      self_rest_days s = [((1, 0), 2), ((2, 0), 3)])"
proof -
  have d: "distinct (Nurse_column demo_nurses) \<and> distinct (keys [(0::int, ''Day'')])"
    by (simp add: demo_nurses_def Nurse_column_def keys_def)
  have sk: "shift_keys demo_nurses (py_range0 1) [(0, ''Day'')] = [(1, 0, 0), (2, 0, 0)]"
    and rk: "rest_keys demo_nurses (py_range0 1) = [(1, 0), (2, 0)]"
    by (simp_all add: shift_keys_def rest_keys_def demo_nurses_def Nurse_column_def keys_def
        py_range0_def py_range_def)
  have n: "length demo_nurses = 2" by (simp add: demo_nurses_def)
  from post_init_universe [of demo_nurses "[(0, ''Day'')]" 1 "''Monday''"] d
  obtain s :: "unit NurseSchedulingModel" where
    "post_init demo_nurses [(0, ''Day'')] 1 ''Monday'' = Inr s"
    "length (variables (self_model s)) = 4"
    "self_shifts s = [((1, 0, 0), 0), ((2, 0, 0), 1)]"
    "self_rest_days s = [((1, 0), 2), ((2, 0), 3)]"
    unfolding sk rk n by (auto simp: upt_rec)
  with d show ?thesis by blast
qed

section \<open>Follow-on restriction: limit_shifts_after_shifts\<close>

lemma foldr_max_bool:
  assumes "\<forall>x \<in> set xs. v x = (0::int) \<or> v x = 1"
  shows "foldr max (map v xs) 0 = (if \<exists>x \<in> set xs. v x = 1 then 1 else 0)"
  using assms by (induction xs) auto

lemma after_body_run:
  assumes "(case NewBoolVar name m of
            (w, m1) \<Rightarrow>
              then_do (lookup_all shifts ks1)
                (\<lambda>firsts. then_do (lookup_all shifts ks2)
                   (\<lambda>xs. Inr (Add_OnlyEnforceIf (Linear xs EQ c) w
                                 (AddMaxEquality w firsts m1))))) = Inr m'"
  shows "\<exists>firsts xs. lookup_all shifts ks1 = Inr firsts \<and> lookup_all shifts ks2 = Inr xs \<and>
           variables m' = variables m @ [name] \<and>
           constraints m' = constraints m @
             [Constraint (MaxEquality (length (variables m)) firsts) [],
              Constraint (Linear xs EQ c) [length (variables m)]]"
  using assms
  by (auto simp: NewBoolVar_def then_do_Inr_iff Add_OnlyEnforceIf_def AddMaxEquality_def add_ct_def)

lemma after_body_extends:
  assumes "(case NewBoolVar name m of
            (w, m1) \<Rightarrow>
              then_do (lookup_all shifts ks1)
                (\<lambda>firsts. then_do (lookup_all shifts ks2)
                   (\<lambda>xs. Inr (Add_OnlyEnforceIf (Linear xs EQ c) w
                                 (AddMaxEquality w firsts m1))))) = Inr m'"
  shows "extends m m'"
  using after_body_run [OF assms] by (auto simp: extends_def)

theorem limit_shifts_after_shifts_window_counterexample:
  "limit_shifts_after_shifts demo2_model demo2_shifts demo2_nurses (py_range0 2) [0] [0] 1 0
     = Inr demo2_after \<and>
   min 1 (int (length (py_range0 2)) - 0) = 1 \<and>
   lookup_all demo2_shifts [(1, day, shift). day \<leftarrow> following_days 0 1, shift \<leftarrow> [0]] = Inr [1] \<and>
   Constraint (Linear [1] EQ 0) [2] \<notin> set (constraints demo2_after) \<and>
   Constraint (Linear [0] EQ 0) [2] \<in> set (constraints demo2_after) \<and>
   \<not> feasible (\<lambda>x. if x = 0 \<or> x = 2 then 1 else 0) demo2_after"
  by (simp add: limit_shifts_after_shifts_def demo2_model_def demo2_shifts_def demo2_nurses_def
      demo2_after_def py_range0_def py_range_def following_days_def Nurse_column_def
      NewBoolVar_def dict_get_def AddMaxEquality_def Add_OnlyEnforceIf_def add_ct_def
      worked_shift_name_def str_int_def str_nat.simps feasible_def compare_def upt_rec)


text \<open>
  C6 (amended). For every nurse and every day \<open>d\<close>, \<open>limit_shifts_after_shifts\<close> introduces
  a new worked-first indicator equal to the logical OR of that nurse's variables over
  \<open>first_shifts\<close> on day \<open>d\<close>, and adds one reified constraint: when the indicator is true,
  the sum of the \<open>limited_shifts\<close> variables over the \<open>min(num_consecutive, len(days) - d)\<close>
  days that start at day \<open>d\<close> itself (\<open>d, d + 1, ...\<close>) equals \<open>allowed_num_shifts\<close>; when
  the indicator is false that constraint holds whatever the other values are.
\<close>

theorem limit_shifts_after_shifts_window:
  assumes run: "limit_shifts_after_shifts model shifts nurses days first_shifts limited_shifts
                  num_consecutive allowed_num_shifts = Inr model'"
    and vars: "\<forall>x \<in> set (dict_values shifts). x < length (variables model)"
    and day: "day \<in> set days" and nurse: "nurse \<in> set (Nurse_column nurses)"
  shows "\<exists>w firsts xs.
           length (variables model) \<le> w \<and> w < length (variables model') \<and>
           lookup_all shifts [(nurse, day, shift). shift \<leftarrow> first_shifts] = Inr firsts \<and>
           lookup_all shifts
             [(nurse, day + offset, shift).
                offset \<leftarrow> py_range0 (min num_consecutive (int (length days) - day)),
                shift \<leftarrow> limited_shifts] = Inr xs \<and>
           Constraint (MaxEquality w firsts) [] \<in> set (constraints model') \<and>
           Constraint (Linear xs EQ allowed_num_shifts) [w] \<in> set (constraints model') \<and>
           (\<forall>final v. extends model' final \<and> feasible v final \<longrightarrow>
              ((v w = 1) = (\<exists>x \<in> set firsts. v x = 1)) \<and>
              (v w = 1 \<longrightarrow> sum_list (map v xs) = allowed_num_shifts)) \<and>
           (\<forall>v. v w \<noteq> 1 \<longrightarrow> satisfied v (Constraint (Linear xs EQ allowed_num_shifts) [w]))"
proof -
  let ?ks1 = "\<lambda>nurse day. [(nurse, day, shift). shift \<leftarrow> first_shifts]"
  let ?ks2 = "\<lambda>nurse day. [(nurse, day + offset, shift).
                offset \<leftarrow> py_range0 (min num_consecutive (int (length days) - day)),
                shift \<leftarrow> limited_shifts]"
  let ?body = "\<lambda>day nurse m.
         (case NewBoolVar (worked_shift_name nurse day) m of
            (w, m1) \<Rightarrow>
              then_do (lookup_all shifts (?ks1 nurse day))
                (\<lambda>firsts. then_do (lookup_all shifts (?ks2 nurse day))
                   (\<lambda>xs. Inr (Add_OnlyEnforceIf (Linear xs EQ allowed_num_shifts) w
                                 (AddMaxEquality w firsts m1)))))"
  let ?inner = "\<lambda>day. for_each (Nurse_column nurses) (?body day)"
  have body_ext: "\<And>d n s s'. ?body d n s = Inr s' \<Longrightarrow> extends s s'"
    by (rule after_body_extends)
  have inner_ext: "\<And>d s s'. ?inner d s = Inr s' \<Longrightarrow> extends s s'"
    by (erule for_each_extends) (rule body_ext)
  from run have run': "for_each days ?inner model = Inr model'"
    by (simp add: limit_shifts_after_shifts_def Let_def)
  from for_each_member_extends [OF run' day] inner_ext
  obtain m1 m2 where m12: "extends model m1" "?inner day m1 = Inr m2" "extends m2 model'"
    by blast
  from for_each_member_extends [OF m12(2) nurse] body_ext
  obtain m3 m4 where m34: "extends m1 m3" "?body day nurse m3 = Inr m4" "extends m4 m2"
    by blast
  from after_body_run [OF m34(2)] obtain firsts xs where
    look: "lookup_all shifts (?ks1 nurse day) = Inr firsts"
          "lookup_all shifts (?ks2 nurse day) = Inr xs"
    and m4v: "variables m4 = variables m3 @ [worked_shift_name nurse day]"
    and m4c: "constraints m4 = constraints m3 @
             [Constraint (MaxEquality (length (variables m3)) firsts) [],
              Constraint (Linear xs EQ allowed_num_shifts) [length (variables m3)]]"
    by blast
  let ?w = "length (variables m3)"
  have e03: "extends model m3" using m12(1) m34(1) by (rule extends_trans)
  have e4: "extends m4 model'" using m34(3) m12(3) by (rule extends_trans)
  have lo: "length (variables model) \<le> ?w" using e03 by (rule extends_length)
  have hi: "?w < length (variables model')"
    using extends_length [OF e4] by (simp add: m4v)
  have mem: "Constraint (MaxEquality ?w firsts) [] \<in> set (constraints model')"
       "Constraint (Linear xs EQ allowed_num_shifts) [?w] \<in> set (constraints model')"
    using extends_constraints [OF e4] by (auto simp: m4c)
  have sem: "((v ?w = 1) = (\<exists>x \<in> set firsts. v x = 1)) \<and>
             (v ?w = 1 \<longrightarrow> sum_list (map v xs) = allowed_num_shifts)"
    if fin: "extends model' final" "feasible v final" for final v
  proof -
    have feas: "feasible v model'" using fin(2) fin(1) by (rule feasible_extends)
    have bool: "\<forall>x \<in> set firsts. v x = 0 \<or> v x = 1"
    proof
      fix x assume "x \<in> set firsts"
      with lookup_all_the(1) [OF look(1)] obtain k where "x = the (map_of shifts k)"
        "k \<in> set (?ks1 nurse day)" by auto
      with lookup_all_the(2) [OF look(1)] have "map_of shifts k = Some x" by auto
      with vars have "x < length (variables model)" by (auto dest: map_of_dict_values)
      with lo hi have "x < length (variables model')" by simp
      with feas show "v x = 0 \<or> v x = 1" by (simp add: feasible_def)
    qed
    from feas mem have "satisfied v (Constraint (MaxEquality ?w firsts) [])"
      and "satisfied v (Constraint (Linear xs EQ allowed_num_shifts) [?w])"
      by (auto simp: feasible_def)
    then show ?thesis
      by (auto simp: foldr_max_bool [OF bool] compare_def split: if_splits)
  qed
  have off: "\<forall>v. v ?w \<noteq> 1 \<longrightarrow> satisfied v (Constraint (Linear xs EQ allowed_num_shifts) [?w])"
    by simp
  from lo hi look mem sem off show ?thesis by blast
qed

theorem limit_shifts_after_shifts_window_witness:
  "limit_shifts_after_shifts demo2_model demo2_shifts demo2_nurses (py_range0 2) [0] [0] 1 0
     = Inr demo2_after \<and>
   list_all (\<lambda>x. x < length (variables demo2_model)) (dict_values demo2_shifts) \<and>
   0 \<in> set (py_range0 2) \<and> 1 \<in> set (Nurse_column demo2_nurses) \<and>
   (\<exists>w. 2 \<le> w \<and> w < 4 \<and> Constraint (MaxEquality w [0]) [] \<in> set (constraints demo2_after) \<and>
        Constraint (Linear [0] EQ 0) [w] \<in> set (constraints demo2_after))"
proof -
  have run: "limit_shifts_after_shifts demo2_model demo2_shifts demo2_nurses (py_range0 2)
               [0] [0] 1 0 = Inr demo2_after"
    by (simp add: limit_shifts_after_shifts_def demo2_model_def demo2_shifts_def demo2_nurses_def
      demo2_after_def py_range0_def py_range_def Nurse_column_def
      NewBoolVar_def dict_get_def AddMaxEquality_def Add_OnlyEnforceIf_def add_ct_def
      worked_shift_name_def str_int_def str_nat.simps upt_rec)
  have vars: "\<forall>x \<in> set (dict_values demo2_shifts). x < length (variables demo2_model)"
    by (simp add: demo2_shifts_def demo2_model_def dict_values_def)
  have day: "0 \<in> set (py_range0 2)" by (simp add: py_range0_def py_range_def upt_rec)
  have nurse: "1 \<in> set (Nurse_column demo2_nurses)"
    by (simp add: demo2_nurses_def Nurse_column_def)
  have look1: "lookup_all demo2_shifts [(1, 0, shift). shift \<leftarrow> [0]] = Inr [0]"
    by (simp add: demo2_shifts_def dict_get_def)
  have look2: "lookup_all demo2_shifts
        [(1, 0 + offset, shift).
           offset \<leftarrow> py_range0 (min 1 (int (length (py_range0 2)) - 0)), shift \<leftarrow> [0]] = Inr [0]"
    by (simp add: demo2_shifts_def dict_get_def py_range0_def py_range_def)
  have len: "length (variables demo2_model) = 2" "length (variables demo2_after) = 4"
    by (simp_all add: demo2_model_def demo2_after_def)
  from limit_shifts_after_shifts_window [OF run vars day nurse]
  have "\<exists>w. 2 \<le> w \<and> w < 4 \<and> Constraint (MaxEquality w [0]) [] \<in> set (constraints demo2_after) \<and>
        Constraint (Linear [0] EQ 0) [w] \<in> set (constraints demo2_after)"
    unfolding look1 look2 len by blast
  with run vars day nurse show ?thesis by (simp add: list_all_iff)
qed

section \<open>Block assignment and mandated rest: assign_consecutive_shifts\<close>

lemma block_propagated_mono:
  "block_propagated shifts nurse day num_days si nc m \<Longrightarrow> extends m m' \<Longrightarrow>
     block_propagated shifts nurse day num_days si nc m'"
  unfolding block_propagated_def using extends_constraints by blast

lemma rest_coupled_mono:
  "rest_coupled shifts rest_days ds nurse day num_days nc w m \<Longrightarrow> extends m m' \<Longrightarrow>
     rest_coupled shifts rest_days ds nurse day num_days nc w m'"
  unfolding rest_coupled_def using extends_constraints by blast

lemma extends_Add: "extends m (Add e m)"
  by (simp add: Add_def extends_add_ct)

lemma extends_Add_OnlyEnforceIf: "extends m (Add_OnlyEnforceIf e b m)"
  by (simp add: Add_OnlyEnforceIf_def extends_add_ct)

lemma block_step:
  assumes "(let shift_day_index = day + k
            in if shift_day_index < num_days then
                 then_do (dict_get shifts (nurse, shift_day_index, si)) (\<lambda>a.
                   then_do (dict_get shifts (nurse, day, si)) (\<lambda>b. Inr (Add (VarEq a b) m)))
               else Inr m) = Inr m'"
  shows "extends m m'"
    and "day + k < num_days \<Longrightarrow>
           \<exists>a b. dict_get shifts (nurse, day + k, si) = Inr a \<and>
                 dict_get shifts (nurse, day, si) = Inr b \<and>
                 Constraint (VarEq a b) [] \<in> set (constraints m')"
  using assms
  by (auto simp: Let_def then_do_Inr_iff extends_refl Add_def add_ct_def extends_def
           split: if_splits)

lemma block_days_run:
  assumes "block_days shifts nurse day num_days si nc m = Inr m'"
  shows "extends m m'" and "block_propagated shifts nurse day num_days si nc m'"
proof -
  let ?body = "\<lambda>day_offset m.
       (let shift_day_index = day + day_offset
        in if shift_day_index < num_days then
             then_do (dict_get shifts (nurse, shift_day_index, si)) (\<lambda>a.
               then_do (dict_get shifts (nurse, day, si)) (\<lambda>b. Inr (Add (VarEq a b) m)))
           else Inr m)"
  from assms have run: "for_each (py_range 1 nc) ?body m = Inr m'"
    by (simp add: block_days_def)
  have step: "\<And>x s s'. ?body x s = Inr s' \<Longrightarrow> extends s s'"
    by (rule block_step(1))
  show "extends m m'" by (rule for_each_extends [OF run]) (rule step)
  show "block_propagated shifts nurse day num_days si nc m'"
    unfolding block_propagated_def
  proof (intro ballI impI)
    fix k assume k: "k \<in> set (py_range 1 nc)" and h: "day + k < num_days"
    from for_each_member_extends [OF run k] step
    obtain m1 m2 where m12: "extends m m1" "?body k m1 = Inr m2" "extends m2 m'" by blast
    from block_step(2) [OF m12(2) h] obtain a b where
      "dict_get shifts (nurse, day + k, si) = Inr a" "dict_get shifts (nurse, day, si) = Inr b"
      "Constraint (VarEq a b) [] \<in> set (constraints m2)" by blast
    with extends_constraints [OF m12(3)]
    show "\<exists>a b. dict_get shifts (nurse, day + k, si) = Inr a \<and>
                 dict_get shifts (nurse, day, si) = Inr b \<and>
                 Constraint (VarEq a b) [] \<in> set (constraints m')"
      by blast
  qed
qed

lemma rest_step:
  assumes "(let rest_day_index = start + off
            in if rest_day_index < num_days then
                 then_do (lookup_all shifts
                            [(nurse, rest_day_index, shift). shift \<leftarrow> keys daily_shifts])
                   (\<lambda>xs. (let m1 = Add_OnlyEnforceIf (Linear xs EQ 0) w m
                          in then_do (dict_get rest_days (nurse, rest_day_index))
                               (\<lambda>r. Inr (Add (VarEq r w) m1))))
               else Inr m) = Inr m'"
  shows "extends m m'"
    and "start + off < num_days \<Longrightarrow>
           \<exists>xs r. lookup_all shifts [(nurse, start + off, shift). shift \<leftarrow> keys daily_shifts]
                     = Inr xs \<and>
                  dict_get rest_days (nurse, start + off) = Inr r \<and>
                  Constraint (Linear xs EQ 0) [w] \<in> set (constraints m') \<and>
                  Constraint (VarEq r w) [] \<in> set (constraints m')"
  using assms
  by (auto simp: Let_def then_do_Inr_iff extends_refl Add_def Add_OnlyEnforceIf_def add_ct_def
           extends_def split: if_splits)

lemma rest_after_block_run:
  assumes "rest_after_block shifts rest_days daily_shifts nurse day num_days nc w m = Inr m'"
  shows "extends m m'"
    and "rest_coupled shifts rest_days daily_shifts nurse day num_days nc w m'"
proof -
  let ?body = "\<lambda>rest_offset m.
           (let rest_day_index = (day + nc) + rest_offset
            in if rest_day_index < num_days then
                 then_do (lookup_all shifts
                            [(nurse, rest_day_index, shift). shift \<leftarrow> keys daily_shifts])
                   (\<lambda>xs.
                      (let m1 = Add_OnlyEnforceIf (Linear xs EQ 0) w m
                       in then_do (dict_get rest_days (nurse, rest_day_index))
                            (\<lambda>r. Inr (Add (VarEq r w) m1))))
               else Inr m)"
  from assms have run: "for_each (py_range0 2) ?body m = Inr m'"
    by (simp add: rest_after_block_def Let_def)
  have step: "\<And>x s s'. ?body x s = Inr s' \<Longrightarrow> extends s s'"
    by (rule rest_step(1))
  show "extends m m'" by (rule for_each_extends [OF run]) (rule step)
  show "rest_coupled shifts rest_days daily_shifts nurse day num_days nc w m'"
    unfolding rest_coupled_def
  proof (intro ballI impI)
    fix off assume off: "off \<in> set (py_range0 2)" and h: "day + nc + off < num_days"
    from for_each_member_extends [OF run off] step
    obtain m1 m2 where m12: "extends m m1" "?body off m1 = Inr m2" "extends m2 m'" by blast
    from rest_step(2) [OF m12(2) h] obtain xs r where
      "lookup_all shifts [(nurse, day + nc + off, shift). shift \<leftarrow> keys daily_shifts] = Inr xs"
      "dict_get rest_days (nurse, day + nc + off) = Inr r"
      "Constraint (Linear xs EQ 0) [w] \<in> set (constraints m2)"
      "Constraint (VarEq r w) [] \<in> set (constraints m2)" by blast
    with extends_constraints [OF m12(3)]
    show "\<exists>xs r. lookup_all shifts
                    [(nurse, day + nc + off, shift). shift \<leftarrow> keys daily_shifts] = Inr xs \<and>
                 dict_get rest_days (nurse, day + nc + off) = Inr r \<and>
                 Constraint (Linear xs EQ 0) [w] \<in> set (constraints m') \<and>
                 Constraint (VarEq r w) [] \<in> set (constraints m')"
      by blast
  qed
qed

lemma block_body_run:
  assumes "(case NewBoolVar name m of
              (w, m1) \<Rightarrow>
                then_do (dict_get shifts (nurse, day, si)) (\<lambda>x.
                  then_do (block_days shifts nurse day num_days si nc (Add (VarEq w x) m1))
                    (rest_after_block shifts rest_days daily_shifts nurse day num_days nc w)))
            = Inr m'"
  shows "extends m m'"
    and "length (variables m) < length (variables m')"
    and "\<exists>x0. dict_get shifts (nurse, day, si) = Inr x0 \<and>
              Constraint (VarEq (length (variables m)) x0) [] \<in> set (constraints m')"
    and "block_propagated shifts nurse day num_days si nc m'"
    and "rest_coupled shifts rest_days daily_shifts nurse day num_days nc (length (variables m)) m'"
proof -
  let ?w = "length (variables m)"
  let ?m1 = "m\<lparr>variables := variables m @ [name]\<rparr>"
  from assms obtain x0 m2 where
    x0: "dict_get shifts (nurse, day, si) = Inr x0"
    and b: "block_days shifts nurse day num_days si nc (Add (VarEq ?w x0) ?m1) = Inr m2"
    and r: "rest_after_block shifts rest_days daily_shifts nurse day num_days nc ?w m2 = Inr m'"
    by (auto simp: NewBoolVar_def then_do_Inr_iff)
  have e1: "extends m ?m1" by (simp add: extends_def)
  have e2: "extends ?m1 (Add (VarEq ?w x0) ?m1)" by (rule extends_Add)
  have e3: "extends (Add (VarEq ?w x0) ?m1) m2" by (rule block_days_run(1) [OF b])
  have e4: "extends m2 m'" by (rule rest_after_block_run(1) [OF r])
  have e13: "extends ?m1 m2" using e2 e3 by (rule extends_trans)
  have e14: "extends ?m1 m'" using e13 e4 by (rule extends_trans)
  show "extends m m'" using e1 e14 by (rule extends_trans)
  show "?w < length (variables m')" using extends_length [OF e14] by simp
  have "Constraint (VarEq ?w x0) [] \<in> set (constraints (Add (VarEq ?w x0) ?m1))"
    by (simp add: Add_def add_ct_def)
  with extends_constraints [OF e3] extends_constraints [OF e4] x0
  show "\<exists>x0. dict_get shifts (nurse, day, si) = Inr x0 \<and>
              Constraint (VarEq ?w x0) [] \<in> set (constraints m')"
    by blast
  show "block_propagated shifts nurse day num_days si nc m'"
    using block_days_run(2) [OF b] e4 by (rule block_propagated_mono)
  show "rest_coupled shifts rest_days daily_shifts nurse day num_days nc ?w m'"
    by (rule rest_after_block_run(2) [OF r])
qed


lemma dict_get_Inr: "dict_get d k = Inr x \<longleftrightarrow> map_of d k = Some x"
  by (simp add: dict_get_def split: option.splits)

lemma value_is_1_Some: "map_of d k = Some x \<Longrightarrow> value_is_1 v d k = (v x = 1)"
  by (simp add: value_is_1_def)

lemma feasible_bool:
  "feasible v m \<Longrightarrow> x < length (variables m) \<Longrightarrow> v x = 0 \<or> v x = 1"
  by (simp add: feasible_def)

lemma feasible_satisfied: "feasible v m \<Longrightarrow> c \<in> set (constraints m) \<Longrightarrow> satisfied v c"
  by (simp add: feasible_def)

lemma sum_zero_all_zero:
  assumes "\<forall>x \<in> set xs. v x = (0::int) \<or> v x = 1" "sum_list (map v xs) = 0" "x \<in> set xs"
  shows "v x = 0"
proof -
  have "\<forall>y \<in> set (map v xs). 0 \<le> y" using assms(1) by auto
  with assms(2) have "\<forall>y \<in> set (map v xs). y = 0"
    using sum_list_nonneg_eq_0_iff [of "map v xs"] by blast
  with assms(3) show ?thesis by simp
qed

text \<open>
  C2. For every day \<open>d\<close> of the horizon whose weekday name, counted from the configured
  start day, equals \<open>start_shift_day\<close>, and for every nurse, \<open>assign_consecutive_shifts\<close>
  introduces a new block indicator \<open>w\<close> with \<open>w = x[n, d, shift_index]\<close>; adds
  \<open>x[n, d + k, shift_index] = x[n, d, shift_index]\<close> for every \<open>k\<close> in \<open>1..num_consecutive - 1\<close>
  with \<open>d + k < num_days\<close>; and for each of the days \<open>d + num_consecutive\<close> and
  \<open>d + num_consecutive + 1\<close> that is below \<open>num_days\<close> adds "the sum of the nurse's shift
  variables of that day is 0", enforced when \<open>w\<close> is true, and \<open>r[n, day] = w\<close>. So in
  every assignment that satisfies the model, the block days carry the value of the first
  day, and when the indicator is 1 the two days after the block have no shift of any type
  and their rest-day variable is 1.
\<close>

theorem assign_consecutive_shifts_block:
  assumes run: "assign_consecutive_shifts model shifts rest_days nurses days daily_shifts
                  start_day num_days start_shift_day shift_index num_consecutive = Inr model'"
    and vars: "\<forall>x \<in> set (dict_values shifts). x < length (variables model)"
    and day: "day \<in> set days"
    and name: "what_day day start_day = Inr (start_shift_day, weekend)"
    and nurse: "nurse \<in> set (Nurse_column nurses)"
  shows "\<exists>w x0.
           length (variables model) \<le> w \<and> w < length (variables model') \<and>
           dict_get shifts (nurse, day, shift_index) = Inr x0 \<and>
           Constraint (VarEq w x0) [] \<in> set (constraints model') \<and>
           block_propagated shifts nurse day num_days shift_index num_consecutive model' \<and>
           rest_coupled shifts rest_days daily_shifts nurse day num_days num_consecutive w model' \<and>
           (\<forall>final v. extends model' final \<and> feasible v final \<longrightarrow>
              v w = v x0 \<and>
              (\<forall>k \<in> set (py_range 1 num_consecutive). day + k < num_days \<longrightarrow>
                 value_is_1 v shifts (nurse, day + k, shift_index) =
                 value_is_1 v shifts (nurse, day, shift_index)) \<and>
              (v w = 1 \<longrightarrow>
                 (\<forall>off \<in> set (py_range0 2). day + num_consecutive + off < num_days \<longrightarrow>
                    (\<forall>shift \<in> set (keys daily_shifts).
                        \<not> value_is_1 v shifts (nurse, day + num_consecutive + off, shift)) \<and>
                    value_is_1 v rest_days (nurse, day + num_consecutive + off))))"
proof -
  let ?block = "\<lambda>day nurse m.
       (case NewBoolVar (worked_shift_name nurse day) m of
          (w, m1) \<Rightarrow>
            then_do (dict_get shifts (nurse, day, shift_index)) (\<lambda>x.
              then_do (block_days shifts nurse day num_days shift_index num_consecutive
                         (Add (VarEq w x) m1))
                (rest_after_block shifts rest_days daily_shifts nurse day num_days
                   num_consecutive w)))"
  let ?nurse_body = "\<lambda>day_name day nurse m.
       if day_name = start_shift_day then ?block day nurse m else Inr m"
  let ?day_body = "\<lambda>day m. then_do (what_day day start_day)
       (\<lambda>wd. for_each (Nurse_column nurses) (?nurse_body (fst wd) day) m)"
  have nurse_ext: "\<And>dn d n s s'. ?nurse_body dn d n s = Inr s' \<Longrightarrow> extends s s'"
    by (auto split: if_splits intro: block_body_run(1) extends_refl)
  have day_ext: "\<And>d s s'. ?day_body d s = Inr s' \<Longrightarrow> extends s s'"
  proof -
    fix d s s' assume a: "?day_body d s = Inr s'"
    then obtain wd where "for_each (Nurse_column nurses) (?nurse_body (fst wd) d) s = Inr s'"
      by (auto simp: then_do_Inr_iff)
    then show "extends s s'" by (rule for_each_extends) (rule nurse_ext)
  qed
  from run have run': "for_each days ?day_body model = Inr model'"
    by (simp add: assign_consecutive_shifts_def Let_def)
  from for_each_member_extends [OF run' day] day_ext
  obtain m1 m2 where m12: "extends model m1" "?day_body day m1 = Inr m2" "extends m2 model'"
    by blast
  from m12(2) name
  have inner: "for_each (Nurse_column nurses) (?nurse_body start_shift_day day) m1 = Inr m2"
    by simp
  from for_each_member_extends [OF inner nurse] nurse_ext
  obtain m3 m4 where m34: "extends m1 m3" "?nurse_body start_shift_day day nurse m3 = Inr m4"
      "extends m4 m2"
    by blast
  from m34(2) have blk: "?block day nurse m3 = Inr m4" by simp
  let ?w = "length (variables m3)"
  note facts = block_body_run [OF blk]
  from facts(3) obtain x0 where x0: "dict_get shifts (nurse, day, shift_index) = Inr x0"
      "Constraint (VarEq ?w x0) [] \<in> set (constraints m4)"
    by blast
  have e03: "extends model m3" using m12(1) m34(1) by (rule extends_trans)
  have e4: "extends m4 model'" using m34(3) m12(3) by (rule extends_trans)
  have lo: "length (variables model) \<le> ?w" using e03 by (rule extends_length)
  have hi: "?w < length (variables model')" using facts(2) extends_length [OF e4] by simp
  have c0: "Constraint (VarEq ?w x0) [] \<in> set (constraints model')"
    using x0(2) extends_constraints [OF e4] by blast
  have bp: "block_propagated shifts nurse day num_days shift_index num_consecutive model'"
    using facts(4) e4 by (rule block_propagated_mono)
  have rc: "rest_coupled shifts rest_days daily_shifts nurse day num_days num_consecutive ?w model'"
    using facts(5) e4 by (rule rest_coupled_mono)
  have sem: "v ?w = v x0 \<and>
              (\<forall>k \<in> set (py_range 1 num_consecutive). day + k < num_days \<longrightarrow>
                 value_is_1 v shifts (nurse, day + k, shift_index) =
                 value_is_1 v shifts (nurse, day, shift_index)) \<and>
              (v ?w = 1 \<longrightarrow>
                 (\<forall>off \<in> set (py_range0 2). day + num_consecutive + off < num_days \<longrightarrow>
                    (\<forall>shift \<in> set (keys daily_shifts).
                        \<not> value_is_1 v shifts (nurse, day + num_consecutive + off, shift)) \<and>
                    value_is_1 v rest_days (nurse, day + num_consecutive + off)))"
    if fin: "extends model' final" "feasible v final" for final v
  proof -
    have feas: "feasible v model'" using fin(2) fin(1) by (rule feasible_extends)
    have p1: "v ?w = v x0" using feasible_satisfied [OF feas c0] by simp
    have p2: "value_is_1 v shifts (nurse, day + k, shift_index) =
              value_is_1 v shifts (nurse, day, shift_index)"
      if k: "k \<in> set (py_range 1 num_consecutive)" "day + k < num_days" for k
    proof -
      from bp k obtain a b where ab: "dict_get shifts (nurse, day + k, shift_index) = Inr a"
          "dict_get shifts (nurse, day, shift_index) = Inr b"
          "Constraint (VarEq a b) [] \<in> set (constraints model')"
        unfolding block_propagated_def by blast
      from feasible_satisfied [OF feas ab(3)] have "v a = v b" by simp
      with ab(1,2) show ?thesis by (simp add: dict_get_Inr value_is_1_Some)
    qed
    have p3: "(\<forall>shift \<in> set (keys daily_shifts).
                  \<not> value_is_1 v shifts (nurse, day + num_consecutive + off, shift)) \<and>
              value_is_1 v rest_days (nurse, day + num_consecutive + off)"
      if w1: "v ?w = 1" and off: "off \<in> set (py_range0 2)"
        "day + num_consecutive + off < num_days" for off
    proof -
      let ?ks = "[(nurse, day + num_consecutive + off, shift). shift \<leftarrow> keys daily_shifts]"
      from rc off obtain xs r where xr: "lookup_all shifts ?ks = Inr xs"
          "dict_get rest_days (nurse, day + num_consecutive + off) = Inr r"
          "Constraint (Linear xs EQ 0) [?w] \<in> set (constraints model')"
          "Constraint (VarEq r ?w) [] \<in> set (constraints model')"
        unfolding rest_coupled_def by blast
      from feasible_satisfied [OF feas xr(3)] w1 have sum0: "sum_list (map v xs) = 0"
        by (simp add: compare_def)
      from feasible_satisfied [OF feas xr(4)] w1 have r1: "v r = 1" by simp
      have xs_eq: "xs = map (\<lambda>k. the (map_of shifts k)) ?ks"
        and def: "\<forall>k \<in> set ?ks. \<exists>x. map_of shifts k = Some x"
        using lookup_all_the [OF xr(1)] by blast+
      have bool: "\<forall>x \<in> set xs. v x = 0 \<or> v x = 1"
      proof
        fix x assume "x \<in> set xs"
        with xs_eq obtain k where "k \<in> set ?ks" "x = the (map_of shifts k)" by auto
        with def have "map_of shifts k = Some x" by auto
        with vars have "x < length (variables model)" by (auto dest: map_of_dict_values)
        with lo hi have "x < length (variables model')" by simp
        with feas show "v x = 0 \<or> v x = 1" by (rule feasible_bool)
      qed
      have "\<not> value_is_1 v shifts (nurse, day + num_consecutive + off, shift)"
        if sh: "shift \<in> set (keys daily_shifts)" for shift
      proof -
        from sh have in_ks: "(nurse, day + num_consecutive + off, shift) \<in> set ?ks" by simp
        with def obtain x where x: "map_of shifts (nurse, day + num_consecutive + off, shift) = Some x"
          by blast
        with in_ks xs_eq have "x \<in> set xs" by force
        from sum_zero_all_zero [OF bool sum0 this] have "v x = 0" .
        with x show ?thesis by (simp add: value_is_1_Some)
      qed
      moreover have "value_is_1 v rest_days (nurse, day + num_consecutive + off)"
        using xr(2) r1 by (simp add: dict_get_Inr value_is_1_Some)
      ultimately show ?thesis by blast
    qed
    from p1 p2 p3 show ?thesis by blast
  qed
  from lo hi x0(1) c0 bp rc sem show ?thesis by blast
qed


lemma demo4_run:
  "assign_consecutive_shifts demo4_model demo4_shifts demo4_rest_days demo4_nurses (py_range0 4)
     [(0, ''ED Nights'')] ''Monday'' 4 ''Monday'' 0 2 = Inr demo4_block"
  by (simp add: assign_consecutive_shifts_def block_days_def rest_after_block_def
      demo4_model_def demo4_shifts_def demo4_rest_days_def demo4_nurses_def demo4_block_def
      py_range0_def py_range_def Nurse_column_def keys_def what_day_def days_of_week_def
      NewBoolVar_def dict_get_def Add_def Add_OnlyEnforceIf_def add_ct_def Let_def
      worked_shift_name_def str_int_def str_nat.simps upt_rec)

theorem assign_consecutive_shifts_block_witness:
  "assign_consecutive_shifts demo4_model demo4_shifts demo4_rest_days demo4_nurses (py_range0 4)
     [(0, ''ED Nights'')] ''Monday'' 4 ''Monday'' 0 2 = Inr demo4_block \<and>
   list_all (\<lambda>x. x < length (variables demo4_model)) (dict_values demo4_shifts) \<and>
   0 \<in> set (py_range0 4) \<and> what_day 0 ''Monday'' = Inr (''Monday'', False) \<and>
   1 \<in> set (Nurse_column demo4_nurses) \<and>
   feasible demo4_worked demo4_block \<and>
   Constraint (VarEq 8 0) [] \<in> set (constraints demo4_block) \<and>
   value_is_1 demo4_worked demo4_shifts (1, 0 + 1, 0) \<and>
   \<not> value_is_1 demo4_worked demo4_shifts (1, 0 + 2 + 0, 0) \<and>
   value_is_1 demo4_worked demo4_rest_days (1, 0 + 2 + 0) \<and>
   value_is_1 demo4_worked demo4_rest_days (1, 0 + 2 + 1)"
proof -
  have vars: "\<forall>x \<in> set (dict_values demo4_shifts). x < length (variables demo4_model)"
    by (simp add: demo4_shifts_def demo4_model_def demo4_rest_days_def dict_values_def keys_def)
  have day: "0 \<in> set (py_range0 4)" by (simp add: py_range0_def py_range_def upt_rec)
  have name: "what_day 0 ''Monday'' = Inr (''Monday'', False)"
    by (simp add: what_day_def days_of_week_def)
  have nurse: "1 \<in> set (Nurse_column demo4_nurses)"
    by (simp add: demo4_nurses_def Nurse_column_def)
  have feas: "feasible demo4_worked demo4_block"
    by (simp add: feasible_def demo4_block_def demo4_model_def demo4_shifts_def
        demo4_rest_days_def demo4_worked_def keys_def compare_def upt_rec)
  have len: "length (variables demo4_model) = 8" "length (variables demo4_block) = 9"
    by (simp_all add: demo4_block_def demo4_model_def demo4_shifts_def demo4_rest_days_def
        keys_def)
  have offs: "1 \<in> set (py_range 1 2)" "0 \<in> set (py_range0 2)" "1 \<in> set (py_range0 2)"
    by (simp_all add: py_range0_def py_range_def upt_rec)
  have first: "value_is_1 demo4_worked demo4_shifts (1, 0, 0)"
    by (simp add: value_is_1_def demo4_shifts_def demo4_worked_def)
  from assign_consecutive_shifts_block [OF demo4_run vars day name nurse]
  obtain w x0 where w: "8 \<le> w" "w < 9"
    and c: "Constraint (VarEq w x0) [] \<in> set (constraints demo4_block)"
    and x0: "dict_get demo4_shifts (1, 0, 0) = Inr x0"
    and sem: "\<forall>final v. extends demo4_block final \<and> feasible v final \<longrightarrow>
              v w = v x0 \<and>
              (\<forall>k \<in> set (py_range 1 2). 0 + k < 4 \<longrightarrow>
                 value_is_1 v demo4_shifts (1, 0 + k, 0) = value_is_1 v demo4_shifts (1, 0, 0)) \<and>
              (v w = 1 \<longrightarrow>
                 (\<forall>off \<in> set (py_range0 2). 0 + 2 + off < 4 \<longrightarrow>
                    (\<forall>shift \<in> set (keys [(0::int, ''ED Nights'')]).
                        \<not> value_is_1 v demo4_shifts (1, 0 + 2 + off, shift)) \<and>
                    value_is_1 v demo4_rest_days (1, 0 + 2 + off)))"
    unfolding len by blast
  from w have w8: "w = 8" by simp
  from x0 have x00: "x0 = 0" by (simp add: dict_get_def demo4_shifts_def)
  from sem feas extends_refl [of demo4_block]
  have s: "demo4_worked w = demo4_worked x0"
      "\<forall>k \<in> set (py_range 1 2). 0 + k < 4 \<longrightarrow>
         value_is_1 demo4_worked demo4_shifts (1, 0 + k, 0) =
         value_is_1 demo4_worked demo4_shifts (1, 0, 0)"
      "demo4_worked w = 1 \<longrightarrow>
         (\<forall>off \<in> set (py_range0 2). 0 + 2 + off < 4 \<longrightarrow>
            (\<forall>shift \<in> set (keys [(0::int, ''ED Nights'')]).
                \<not> value_is_1 demo4_worked demo4_shifts (1, 0 + 2 + off, shift)) \<and>
            value_is_1 demo4_worked demo4_rest_days (1, 0 + 2 + off))"
    by blast+
  have w1: "demo4_worked w = 1" by (simp add: w8 demo4_worked_def)
  from s(2) offs(1) first have a: "value_is_1 demo4_worked demo4_shifts (1, 0 + 1, 0)"
    by fastforce
  from s(3) w1 offs(2) have b: "\<not> value_is_1 demo4_worked demo4_shifts (1, 0 + 2 + 0, 0)"
      "value_is_1 demo4_worked demo4_rest_days (1, 0 + 2 + 0)"
    by (fastforce simp: keys_def)+
  from s(3) w1 offs(3) have d: "value_is_1 demo4_worked demo4_rest_days (1, 0 + 2 + 1)"
    by fastforce
  from c have c8: "Constraint (VarEq 8 0) [] \<in> set (constraints demo4_block)"
    by (simp add: w8 x00)
  from demo4_run vars day name nurse feas c8 a b d show ?thesis
    by (simp add: list_all_iff)
qed

section \<open>Truncation at the horizon: assign_consecutive_shifts\<close>

lemma for_each_cong':
  assumes "\<And>x s. x \<in> set xs \<Longrightarrow> f x s = g x s"
  shows "for_each xs f s = for_each xs g s"
  using assms
proof (induction xs arbitrary: s)
  case Nil
  then show ?case by simp
next
  case (Cons x xs)
  have "for_each xs f = for_each xs g"
    using Cons.IH Cons.prems by (intro ext) simp
  with Cons.prems show ?case by simp
qed

lemma for_each_total:
  assumes "\<And>x s. x \<in> set xs \<Longrightarrow> \<exists>s'. body x s = Inr s'"
  shows "\<exists>s'. for_each xs body s = Inr s'"
  using assms
proof (induction xs arbitrary: s)
  case Nil
  then show ?case by simp
next
  case (Cons x xs)
  from Cons.prems [of x s] obtain s1 where "body x s = Inr s1" by auto
  moreover from Cons.IH [of s1] Cons.prems obtain s' where "for_each xs body s1 = Inr s'"
    by auto
  ultimately show ?case by simp
qed

lemma map_of_filter_key:
  "map_of (filter (\<lambda>(k, v). P k) al) k = (if P k then map_of al k else None)"
  by (induction al) auto

lemma dict_get_shifts_below:
  "day < num_days \<Longrightarrow>
     dict_get (shifts_below num_days shifts) (nurse, day, shift) = dict_get shifts (nurse, day, shift)"
proof -
  assume d: "day < num_days"
  have "shifts_below num_days shifts =
          filter (\<lambda>(k, v). (case k of (nurse, day, shift) \<Rightarrow> day < num_days)) shifts"
    by (simp add: shifts_below_def case_prod_unfold)
  then show ?thesis using d by (simp add: dict_get_def map_of_filter_key)
qed

lemma dict_get_rests_below:
  "day < num_days \<Longrightarrow>
     dict_get (rests_below num_days rest_days) (nurse, day) = dict_get rest_days (nurse, day)"
proof -
  assume d: "day < num_days"
  have "rests_below num_days rest_days =
          filter (\<lambda>(k, v). (case k of (nurse, day) \<Rightarrow> day < num_days)) rest_days"
    by (simp add: rests_below_def case_prod_unfold)
  then show ?thesis using d by (simp add: dict_get_def map_of_filter_key)
qed

lemma lookup_all_cong:
  assumes "\<And>k. k \<in> set ks \<Longrightarrow> dict_get d k = dict_get d' k"
  shows "lookup_all d ks = lookup_all d' ks"
  using assms by (induction ks) simp_all

lemma lookup_all_shifts_below:
  "day < num_days \<Longrightarrow>
     lookup_all (shifts_below num_days shifts) [(nurse, day, shift). shift \<leftarrow> ss] =
     lookup_all shifts [(nurse, day, shift). shift \<leftarrow> ss]"
  by (rule lookup_all_cong) (auto simp: dict_get_shifts_below)

lemma block_days_below:
  assumes "day < num_days"
  shows "block_days (shifts_below num_days shifts) nurse day num_days si nc m =
         block_days shifts nurse day num_days si nc m"
  unfolding block_days_def
  by (rule for_each_cong') (simp add: Let_def dict_get_shifts_below assms)

lemma rest_after_block_below:
  "rest_after_block (shifts_below num_days shifts) (rests_below num_days rest_days)
       daily_shifts nurse day num_days nc w =
   rest_after_block shifts rest_days daily_shifts nurse day num_days nc w"
proof
  fix m
  show "rest_after_block (shifts_below num_days shifts) (rests_below num_days rest_days)
          daily_shifts nurse day num_days nc w m =
        rest_after_block shifts rest_days daily_shifts nurse day num_days nc w m"
    unfolding rest_after_block_def Let_def
    by (rule for_each_cong') (simp add: lookup_all_shifts_below dict_get_rests_below)
qed

lemma in_py_range0: "d \<in> set (py_range0 n) \<longleftrightarrow> 0 \<le> d \<and> d < n"
proof
  assume "d \<in> set (py_range0 n)"
  then show "0 \<le> d \<and> d < n" by (auto simp: py_range0_def py_range_def)
next
  assume a: "0 \<le> d \<and> d < n"
  then have "nat d \<in> set [0..<nat n]" "d = int (nat d)" by auto
  then show "d \<in> set (py_range0 n)"
    unfolding py_range0_def py_range_def by (metis (no_types, lifting) add_0 diff_zero image_eqI set_map)
qed

lemma in_py_range: "k \<in> set (py_range a b) \<Longrightarrow> a \<le> k \<and> k < b"
  by (auto simp: py_range_def)

lemma assign_consecutive_shifts_below:
  "assign_consecutive_shifts model (shifts_below num_days shifts) (rests_below num_days rest_days)
       nurses (py_range0 num_days) daily_shifts start_day num_days start_shift_day shift_index
       num_consecutive =
   assign_consecutive_shifts model shifts rest_days nurses (py_range0 num_days) daily_shifts
       start_day num_days start_shift_day shift_index num_consecutive"
  unfolding assign_consecutive_shifts_def Let_def
proof (rule for_each_cong')
  fix day s assume "day \<in> set (py_range0 num_days)"
  then have d: "day < num_days" by (simp add: in_py_range0)
  show "then_do (what_day day start_day)
          (\<lambda>wd. for_each (Nurse_column nurses)
                  (\<lambda>nurse m.
                      if fst wd = start_shift_day
                      then case NewBoolVar (worked_shift_name nurse day) m of
                           (worked_consecutive_shifts, m1) \<Rightarrow>
                             then_do (dict_get (shifts_below num_days shifts)
                                        (nurse, day, shift_index))
                              (\<lambda>x. then_do
                                      (block_days (shifts_below num_days shifts) nurse day
                                        num_days shift_index num_consecutive
                                        (Add (VarEq worked_consecutive_shifts x) m1))
                                      (rest_after_block (shifts_below num_days shifts)
                                        (rests_below num_days rest_days) daily_shifts nurse
                                        day num_days num_consecutive
                                        worked_consecutive_shifts))
                      else Inr m)
                  s) =
        then_do (what_day day start_day)
          (\<lambda>wd. for_each (Nurse_column nurses)
                  (\<lambda>nurse m.
                      if fst wd = start_shift_day
                      then case NewBoolVar (worked_shift_name nurse day) m of
                           (worked_consecutive_shifts, m1) \<Rightarrow>
                             then_do (dict_get shifts (nurse, day, shift_index))
                              (\<lambda>x. then_do
                                      (block_days shifts nurse day num_days shift_index
                                        num_consecutive
                                        (Add (VarEq worked_consecutive_shifts x) m1))
                                      (rest_after_block shifts rest_days daily_shifts nurse
                                        day num_days num_consecutive
                                        worked_consecutive_shifts))
                      else Inr m)
                  s)"
    by (simp add: dict_get_shifts_below [OF d] block_days_below [OF d] rest_after_block_below
          cong: if_cong)
qed


lemma new_bool_vars_keys:
  "fst ` set (fst (new_bool_vars name ks d m)) = set ks \<union> fst ` set d"
proof (induction ks arbitrary: d m)
  case Nil
  then show ?case by simp
next
  case (Cons k ks)
  show ?case
    by (simp add: NewBoolVar_def Cons.IH dict_set_def dom_update)
qed

lemma map_of_defined: "k \<in> fst ` set d \<Longrightarrow> \<exists>x. map_of d k = Some x"
  by (cases "map_of d k") (auto simp: map_of_eq_None_iff)

lemma lookup_all_total:
  assumes "\<And>k. k \<in> set ks \<Longrightarrow> \<exists>x. map_of d k = Some x"
  shows "\<exists>xs. lookup_all d ks = Inr xs"
  using assms
proof (induction ks)
  case Nil
  then show ?case by simp
next
  case (Cons k ks)
  from Cons.prems [of k] obtain x where "map_of d k = Some x" by auto
  moreover from Cons.IH Cons.prems obtain xs where "lookup_all d ks = Inr xs" by auto
  ultimately show ?case by (simp add: dict_get_def)
qed

lemma dict_get_total: "\<exists>x. map_of d k = Some x \<Longrightarrow> \<exists>x. dict_get d k = Inr x"
  by (auto simp: dict_get_def)

text \<open>The block rule returns when the dictionaries hold every in-horizon key.\<close>

lemma assign_consecutive_shifts_total:
  assumes sh: "\<And>n d s. n \<in> set (Nurse_column nurses) \<Longrightarrow> 0 \<le> d \<Longrightarrow> d < num_days \<Longrightarrow>
                  s \<in> set (shift_index # keys daily_shifts) \<Longrightarrow> \<exists>x. map_of shifts (n, d, s) = Some x"
    and rs: "\<And>n d. n \<in> set (Nurse_column nurses) \<Longrightarrow> 0 \<le> d \<Longrightarrow> d < num_days \<Longrightarrow>
                  \<exists>x. map_of rest_days (n, d) = Some x"
    and sd: "start_day \<in> set days_of_week"
    and nc: "0 \<le> num_consecutive"
  shows "\<exists>model'. assign_consecutive_shifts model shifts rest_days nurses (py_range0 num_days)
           daily_shifts start_day num_days start_shift_day shift_index num_consecutive = Inr model'"
  unfolding assign_consecutive_shifts_def Let_def
proof (rule for_each_total)
  fix day m assume "day \<in> set (py_range0 num_days)"
  then have d: "0 \<le> day" "day < num_days" by (simp_all add: in_py_range0)
  from what_day_total [OF sd, of day] obtain name w where wd: "what_day day start_day = Inr (name, w)"
    by blast
  have "\<exists>s'. for_each (Nurse_column nurses)
          (\<lambda>nurse m.
              if name = start_shift_day
              then case NewBoolVar (worked_shift_name nurse day) m of
                   (worked_consecutive_shifts, m1) \<Rightarrow>
                     then_do (dict_get shifts (nurse, day, shift_index))
                      (\<lambda>x. then_do
                              (block_days shifts nurse day num_days shift_index num_consecutive
                                (Add (VarEq worked_consecutive_shifts x) m1))
                              (rest_after_block shifts rest_days daily_shifts nurse day num_days
                                num_consecutive worked_consecutive_shifts))
              else Inr m) m = Inr s'"
  proof (rule for_each_total)
    fix nurse m assume n: "nurse \<in> set (Nurse_column nurses)"
    obtain x0 where x0: "dict_get shifts (nurse, day, shift_index) = Inr x0"
      using dict_get_total [OF sh [OF n d, of shift_index]] by auto
    have blk: "\<exists>m'. block_days shifts nurse day num_days shift_index num_consecutive m0 = Inr m'"
      for m0
      unfolding block_days_def
    proof (rule for_each_total)
      fix k s assume "k \<in> set (py_range 1 num_consecutive)"
      then have k: "1 \<le> k" by (auto dest: in_py_range)
      show "\<exists>s'. (let shift_day_index = day + k
                  in if shift_day_index < num_days
                     then then_do (dict_get shifts (nurse, shift_day_index, shift_index))
                            (\<lambda>a. then_do (dict_get shifts (nurse, day, shift_index))
                                   (\<lambda>b. Inr (Add (VarEq a b) s)))
                     else Inr s) = Inr s'"
      proof (cases "day + k < num_days")
        case True
        from k d have "0 \<le> day + k" by simp
        from dict_get_total [OF sh [OF n this True, of shift_index]]
        obtain a where "dict_get shifts (nurse, day + k, shift_index) = Inr a" by auto
        with True x0 show ?thesis by (simp add: Let_def)
      next
        case False
        then show ?thesis by (simp add: Let_def)
      qed
    qed
    have rst: "\<exists>m'. rest_after_block shifts rest_days daily_shifts nurse day num_days
                       num_consecutive w0 m0 = Inr m'" for w0 m0
      unfolding rest_after_block_def Let_def
    proof (rule for_each_total)
      fix off s assume "off \<in> set (py_range0 2)"
      then have off: "0 \<le> off" by (simp add: in_py_range0)
      let ?r = "day + num_consecutive + off"
      show "\<exists>s'. (if ?r < num_days
                  then then_do (lookup_all shifts
                                  (map (\<lambda>shift. (nurse, ?r, shift)) (keys daily_shifts)))
                         (\<lambda>xs. then_do (dict_get rest_days (nurse, ?r))
                                 (\<lambda>r. Inr (Add (VarEq r w0)
                                             (Add_OnlyEnforceIf (Linear xs EQ 0) w0 s))))
                  else Inr s) = Inr s'"
      proof (cases "?r < num_days")
        case True
        from off d nc have r0: "0 \<le> ?r" by simp
        have "\<exists>xs. lookup_all shifts (map (\<lambda>shift. (nurse, ?r, shift)) (keys daily_shifts)) = Inr xs"
          by (rule lookup_all_total) (auto intro: sh [OF n r0 True])
        then obtain xs where
          "lookup_all shifts (map (\<lambda>shift. (nurse, ?r, shift)) (keys daily_shifts)) = Inr xs" ..
        moreover from dict_get_total [OF rs [OF n r0 True]]
        obtain r where "dict_get rest_days (nurse, ?r) = Inr r" by auto
        ultimately show ?thesis using True by simp
      next
        case False
        then show ?thesis by simp
      qed
    qed
    show "\<exists>s'. (if name = start_shift_day
                then case NewBoolVar (worked_shift_name nurse day) m of
                     (worked_consecutive_shifts, m1) \<Rightarrow>
                       then_do (dict_get shifts (nurse, day, shift_index))
                        (\<lambda>x. then_do
                                (block_days shifts nurse day num_days shift_index
                                  num_consecutive (Add (VarEq worked_consecutive_shifts x) m1))
                                (rest_after_block shifts rest_days daily_shifts nurse day
                                  num_days num_consecutive worked_consecutive_shifts))
                else Inr m) = Inr s'"
    proof (cases "name = start_shift_day")
      case True
      obtain w0 m1 where nb: "NewBoolVar (worked_shift_name nurse day) m = (w0, m1)"
        by (cases "NewBoolVar (worked_shift_name nurse day) m")
      from blk [of "Add (VarEq w0 x0) m1"] obtain m2 where
        m2: "block_days shifts nurse day num_days shift_index num_consecutive
               (Add (VarEq w0 x0) m1) = Inr m2" ..
      from rst [of w0 m2] obtain m3 where
        "rest_after_block shifts rest_days daily_shifts nurse day num_days num_consecutive
           w0 m2 = Inr m3" ..
      with True nb x0 m2 show ?thesis by simp
    next
      case False
      then show ?thesis by simp
    qed
  qed
  then show "\<exists>s'. then_do (what_day day start_day)
          (\<lambda>wd. for_each (Nurse_column nurses)
                  (\<lambda>nurse m.
                      if fst wd = start_shift_day
                      then case NewBoolVar (worked_shift_name nurse day) m of
                           (worked_consecutive_shifts, m1) \<Rightarrow>
                             then_do (dict_get shifts (nurse, day, shift_index))
                              (\<lambda>x. then_do
                                      (block_days shifts nurse day num_days shift_index
                                        num_consecutive
                                        (Add (VarEq worked_consecutive_shifts x) m1))
                                      (rest_after_block shifts rest_days daily_shifts nurse
                                        day num_days num_consecutive
                                        worked_consecutive_shifts))
                      else Inr m)
                  m) = Inr s'"
    by (simp add: wd)
qed


lemma post_init_fields:
  assumes "post_init nurses daily_shifts num_days start_day = Inr self"
  shows "self_all_days self = py_range0 num_days"
    and "fst ` set (self_shifts self) = set (shift_keys nurses (py_range0 num_days) daily_shifts)"
    and "fst ` set (self_rest_days self) = set (rest_keys nurses (py_range0 num_days))"
proof -
  obtain shifts m1 where r1: "new_bool_vars shift_name
      (shift_keys nurses (py_range0 num_days) daily_shifts) [] CpModel = (shifts, m1)"
    by (cases "new_bool_vars shift_name
      (shift_keys nurses (py_range0 num_days) daily_shifts) [] CpModel")
  obtain rest_days m2 where r2: "new_bool_vars rest_name
      (rest_keys nurses (py_range0 num_days)) [] m1 = (rest_days, m2)"
    by (cases "new_bool_vars rest_name (rest_keys nurses (py_range0 num_days)) [] m1")
  from assms have s: "self_all_days self = py_range0 num_days" "self_shifts self = shifts"
      "self_rest_days self = rest_days"
    by (auto simp: post_init_def Let_def r1 r2)
  show "self_all_days self = py_range0 num_days" by (rule s(1))
  show "fst ` set (self_shifts self) = set (shift_keys nurses (py_range0 num_days) daily_shifts)"
    using new_bool_vars_keys [of shift_name "shift_keys nurses (py_range0 num_days) daily_shifts"
        "[]" CpModel]
    by (simp add: r1 s(2))
  show "fst ` set (self_rest_days self) = set (rest_keys nurses (py_range0 num_days))"
    using new_bool_vars_keys [of rest_name "rest_keys nurses (py_range0 num_days)" "[]" m1]
    by (simp add: r2 s(3))
qed

lemma in_shift_keys:
  "(n, d, s) \<in> set (shift_keys nurses days daily_shifts) \<longleftrightarrow>
     n \<in> set (Nurse_column nurses) \<and> d \<in> set days \<and> s \<in> set (keys daily_shifts)"
  by (auto simp: shift_keys_def)

lemma in_rest_keys:
  "(n, d) \<in> set (rest_keys nurses days) \<longleftrightarrow> n \<in> set (Nurse_column nurses) \<and> d \<in> set days"
  by (auto simp: rest_keys_def)

text \<open>
  C3. Whatever the horizon, \<open>start_shift_day\<close>, \<open>shift_index\<close> and \<open>num_consecutive\<close>,
  \<open>assign_consecutive_shifts\<close> over the days \<open>range(num_days)\<close> looks up shift and rest
  variables only at day indices below \<open>num_days\<close>: its result, a model or an exception, is
  the same when every entry of a day \<open>\<ge> num_days\<close> is removed from both dictionaries. On
  the constructed universe, which has no key of a day \<open>\<ge> num_days\<close>, the rule therefore
  returns a model for every canonical start day, every shift index of the mapping and
  every \<open>num_consecutive \<ge> 0\<close>, also when a block or its rest days run past the end of
  the horizon: those days are simply not constrained.
\<close>

theorem assign_consecutive_shifts_truncation:
  "assign_consecutive_shifts model (shifts_below num_days shifts) (rests_below num_days rest_days)
       nurses (py_range0 num_days) daily_shifts start_day num_days start_shift_day shift_index
       num_consecutive =
   assign_consecutive_shifts model shifts rest_days nurses (py_range0 num_days) daily_shifts
       start_day num_days start_shift_day shift_index num_consecutive \<and>
   (post_init nurses daily_shifts num_days start_day = Inr self \<and>
    start_day \<in> set days_of_week \<and> shift_index \<in> set (keys daily_shifts) \<and>
    0 \<le> num_consecutive \<longrightarrow>
      shifts_below num_days (self_shifts self) = self_shifts self \<and>
      rests_below num_days (self_rest_days self) = self_rest_days self \<and>
      (\<exists>model'. assign_consecutive_shifts (self_model self) (self_shifts self)
                   (self_rest_days self) nurses (self_all_days self) daily_shifts start_day
                   num_days start_shift_day shift_index num_consecutive = Inr model'))"
proof (intro conjI impI)
  show "assign_consecutive_shifts model (shifts_below num_days shifts)
          (rests_below num_days rest_days) nurses (py_range0 num_days) daily_shifts start_day
          num_days start_shift_day shift_index num_consecutive =
        assign_consecutive_shifts model shifts rest_days nurses (py_range0 num_days) daily_shifts
          start_day num_days start_shift_day shift_index num_consecutive"
    by (rule assign_consecutive_shifts_below)
next
  assume a: "post_init nurses daily_shifts num_days start_day = Inr self \<and>
    start_day \<in> set days_of_week \<and> shift_index \<in> set (keys daily_shifts) \<and>
    0 \<le> num_consecutive"
  then have pi: "post_init nurses daily_shifts num_days start_day = Inr self" by simp
  note f = post_init_fields [OF pi]
  show "shifts_below num_days (self_shifts self) = self_shifts self"
    unfolding shifts_below_def
  proof (rule filter_True, clarify)
    fix n d s x assume "((n, d, s), x) \<in> set (self_shifts self)"
    then have "(n, d, s) \<in> fst ` set (self_shifts self)" by force
    then show "d < num_days" by (simp add: f(2) in_shift_keys in_py_range0)
  qed
  show "rests_below num_days (self_rest_days self) = self_rest_days self"
    unfolding rests_below_def
  proof (rule filter_True, clarify)
    fix n d x assume "((n, d), x) \<in> set (self_rest_days self)"
    then have "(n, d) \<in> fst ` set (self_rest_days self)" by force
    then show "d < num_days" by (simp add: f(3) in_rest_keys in_py_range0)
  qed
  show "\<exists>model'. assign_consecutive_shifts (self_model self) (self_shifts self)
                   (self_rest_days self) nurses (self_all_days self) daily_shifts start_day
                   num_days start_shift_day shift_index num_consecutive = Inr model'"
    unfolding f(1)
  proof (rule assign_consecutive_shifts_total)
    fix n d s
    assume "n \<in> set (Nurse_column nurses)" "0 \<le> d" "d < num_days"
      "s \<in> set (shift_index # keys daily_shifts)"
    with a have "(n, d, s) \<in> fst ` set (self_shifts self)"
      by (auto simp: f(2) in_shift_keys in_py_range0)
    then show "\<exists>x. map_of (self_shifts self) (n, d, s) = Some x" by (rule map_of_defined)
  next
    fix n d
    assume "n \<in> set (Nurse_column nurses)" "0 \<le> d" "d < num_days"
    then have "(n, d) \<in> fst ` set (self_rest_days self)"
      by (simp add: f(3) in_rest_keys in_py_range0)
    then show "\<exists>x. map_of (self_rest_days self) (n, d) = Some x" by (rule map_of_defined)
  next
    from a show "start_day \<in> set days_of_week" by simp
  next
    from a show "0 \<le> num_consecutive" by simp
  qed
qed

theorem assign_consecutive_shifts_truncation_witness:
  "post_init [\<lparr>Nurse = 1, Team = ''A''\<rparr>] [(0, ''ED Nights'')] 2 ''Monday'' = Inr demo_short \<and>
   ''Monday'' \<in> set days_of_week \<and> 0 \<in> set (keys [(0::int, ''ED Nights'')]) \<and> (0::int) \<le> 3 \<and>
   assign_consecutive_shifts (self_model demo_short) (self_shifts demo_short)
       (self_rest_days demo_short) [\<lparr>Nurse = 1, Team = ''A''\<rparr>] (self_all_days demo_short)
       [(0, ''ED Nights'')] ''Monday'' 2 ''Monday'' 0 3 =
     Inr ((self_model demo_short)
            \<lparr>variables := variables (self_model demo_short) @ [''worked_shift_n1_d0''],
             constraints := [Constraint (VarEq 4 0) [], Constraint (VarEq 1 0) []]\<rparr>)"
proof -
  have pi: "post_init [\<lparr>Nurse = 1, Team = ''A''\<rparr>] [(0, ''ED Nights'')] 2 ''Monday'' = Inr demo_short"
    by (simp add: post_init_def py_range0_def py_range_def shift_keys_def rest_keys_def
      Nurse_column_def keys_def CpModel_def NewBoolVar_def dict_set_def demo_short_def
      shift_name_def rest_name_def str_int_def str_nat.simps upt_rec)
  have sd: "''Monday'' \<in> set days_of_week" by (simp add: days_of_week_def)
  have si: "0 \<in> set (keys [(0::int, ''ED Nights'')])" by (simp add: keys_def)
  have nc: "(0::int) \<le> 3" by simp
  from assign_consecutive_shifts_truncation
    [of "self_model demo_short" 2 "self_shifts demo_short" "self_rest_days demo_short"
        "[\<lparr>Nurse = 1, Team = ''A''\<rparr>]" "[(0, ''ED Nights'')]" "''Monday''" "''Monday''" 0 3
        demo_short]
    pi sd si nc
  obtain model' where "assign_consecutive_shifts (self_model demo_short) (self_shifts demo_short)
       (self_rest_days demo_short) [\<lparr>Nurse = 1, Team = ''A''\<rparr>] (self_all_days demo_short)
       [(0, ''ED Nights'')] ''Monday'' 2 ''Monday'' 0 3 = Inr model'"
    by blast
  moreover have "assign_consecutive_shifts (self_model demo_short) (self_shifts demo_short)
       (self_rest_days demo_short) [\<lparr>Nurse = 1, Team = ''A''\<rparr>] (self_all_days demo_short)
       [(0, ''ED Nights'')] ''Monday'' 2 ''Monday'' 0 3 =
     Inr ((self_model demo_short)
            \<lparr>variables := variables (self_model demo_short) @ [''worked_shift_n1_d0''],
             constraints := [Constraint (VarEq 4 0) [], Constraint (VarEq 1 0) []]\<rparr>)"
    by (simp add: assign_consecutive_shifts_def block_days_def rest_after_block_def
      demo_short_def py_range0_def py_range_def Nurse_column_def keys_def what_day_def
      days_of_week_def NewBoolVar_def dict_get_def Add_def Add_OnlyEnforceIf_def add_ct_def
      Let_def worked_shift_name_def str_int_def str_nat.simps upt_rec)
  ultimately show ?thesis using pi sd si nc by blast
qed

section \<open>The registry: add_constraints and apply_constraints\<close>

lemma filter_update_same:
  "filter (\<lambda>q. fst q \<noteq> d) (AList.update d v al) = filter (\<lambda>q. fst q \<noteq> d) al"
  by (induction al) auto

lemma first_slots_snoc:
  "first_slots (regs @ [(d, v)]) = AList.update d v (first_slots regs)"
proof (induction regs)
  case Nil
  then show ?case by simp
next
  case (Cons r regs)
  obtain d0 v0 where r: "r = (d0, v0)" by (cases r)
  show ?case
  proof (cases "d = d0")
    case True
    with Cons.IH show ?thesis by (simp add: r filter_update_same)
  next
    case False
    then have "filter (\<lambda>q. fst q \<noteq> d0) (AList.update d v (first_slots regs)) =
               AList.update d v (filter (\<lambda>q. fst q \<noteq> d0) (first_slots regs))"
      by (simp add: update_filter)
    with False show ?thesis by (simp add: r Cons.IH)
  qed
qed

lemma register_all_snoc:
  "register_all (regs @ [(d, f, p)]) self = add_constraints d f p (register_all regs self)"
  by (simp add: register_all_def)

lemma registry_register_all:
  assumes "self_applied_constraints self = []"
  shows "self_applied_constraints (register_all regs self) = first_slots regs"
proof (induction regs rule: rev_induct)
  case Nil
  then show ?case by (simp add: register_all_def assms)
next
  case (snoc r regs)
  obtain d f p where r: "r = (d, f, p)" by (cases r)
  show ?case
    by (simp add: r register_all_snoc first_slots_snoc add_constraints_def dict_set_def snoc.IH)
qed

lemma distinct_first_slots: "distinct (map fst (first_slots regs))"
proof (induction regs rule: rev_induct)
  case Nil
  then show ?case by simp
next
  case (snoc r regs)
  obtain d v where r: "r = (d, v)" by (cases r)
  show ?case by (simp add: r first_slots_snoc distinct_update snoc.IH)
qed

lemma apply_constraints_run_rules_aux:
  "for_each rules
       (\<lambda>(constraint_func, params) s.
           then_do (constraint_func (self_model s) (self_shifts s) (self_nurses s)
                      (self_all_days s) (self_daily_shifts s) params)
             (\<lambda>m'. Inr (s\<lparr>self_model := m'\<rparr>))) self = run_rules rules self"
proof (induction rules arbitrary: self)
  case Nil
  then show ?case by simp
next
  case (Cons r rules)
  obtain f p where r: "r = (f, p)" by (cases r)
  show ?case
    by (cases "f (self_model self) (self_shifts self) (self_nurses self)
             (self_all_days self) (self_daily_shifts self) p")
       (simp_all add: r Cons.IH)
qed


lemma demo_registry:
  "self_applied_constraints (register_all demo_registrations demo_unbuilt) =
     [(''Constraint A'', mark_rule, 3), (''Constraint B'', mark_rule, 2)]"
  by (simp add: register_all_def demo_registrations_def demo_unbuilt_def add_constraints_def
      dict_set_def)

lemma demo_registered_fields:
  "self_model (register_all demo_registrations demo_unbuilt) = CpModel"
  by (simp add: register_all_def demo_registrations_def demo_unbuilt_def add_constraints_def)

theorem apply_constraints_order_counterexample:
  "dict_values (self_applied_constraints (register_all demo_registrations demo_unbuilt)) =
     [(mark_rule, 3), (mark_rule, 2)] \<and>
   map snd (in_registration_order demo_registrations) = [(mark_rule, 2), (mark_rule, 3)] \<and>
   apply_constraints (register_all demo_registrations demo_unbuilt) =
     Inr ((register_all demo_registrations demo_unbuilt)
            \<lparr>self_model := \<lparr>variables = [],
                             constraints = [Constraint (AtMostOne [3]) [],
                                            Constraint (AtMostOne [2]) []]\<rparr>\<rparr>) \<and>
   run_rules (map snd (in_registration_order demo_registrations))
       (register_all demo_registrations demo_unbuilt) =
     Inr ((register_all demo_registrations demo_unbuilt)
            \<lparr>self_model := \<lparr>variables = [],
                             constraints = [Constraint (AtMostOne [2]) [],
                                            Constraint (AtMostOne [3]) []]\<rparr>\<rparr>) \<and>
   apply_constraints (register_all demo_registrations demo_unbuilt) \<noteq>
     run_rules (map snd (in_registration_order demo_registrations))
       (register_all demo_registrations demo_unbuilt)"
proof -
  let ?s = "register_all demo_registrations demo_unbuilt"
  have order: "map snd (in_registration_order demo_registrations) = [(mark_rule, 2), (mark_rule, 3)]"
    by (simp add: demo_registrations_def)
  have vals: "dict_values (self_applied_constraints ?s) = [(mark_rule, 3), (mark_rule, 2)]"
    by (simp add: demo_registry dict_values_def)
  have app: "apply_constraints ?s =
     Inr (?s\<lparr>self_model := \<lparr>variables = [],
                             constraints = [Constraint (AtMostOne [3]) [],
                                            Constraint (AtMostOne [2]) []]\<rparr>\<rparr>)"
    by (simp add: apply_constraints_def vals mark_rule_def demo_registered_fields CpModel_def
        AddAtMostOne_def add_ct_def)
  have claimed: "run_rules (map snd (in_registration_order demo_registrations)) ?s =
     Inr (?s\<lparr>self_model := \<lparr>variables = [],
                             constraints = [Constraint (AtMostOne [2]) [],
                                            Constraint (AtMostOne [3]) []]\<rparr>\<rparr>)"
    by (simp add: order mark_rule_def demo_registered_fields CpModel_def
        AddAtMostOne_def add_ct_def)
  have "self_model (?s\<lparr>self_model := \<lparr>variables = [],
                             constraints = [Constraint (AtMostOne [3]) [],
                                            Constraint (AtMostOne [2]) []]\<rparr>\<rparr>) \<noteq>
        self_model (?s\<lparr>self_model := \<lparr>variables = [],
                             constraints = [Constraint (AtMostOne [2]) [],
                                            Constraint (AtMostOne [3]) []]\<rparr>\<rparr>)"
    by simp
  then have ne: "apply_constraints ?s \<noteq>
      run_rules (map snd (in_registration_order demo_registrations)) ?s"
    unfolding app claimed by (metis sum.inject(2))
  from vals order app claimed ne show ?thesis by blast
qed

text \<open>
  C9 (amended). Registering a rule stores its \<open>(constraint_func, params)\<close> pair under the
  description; registering under a description already in use replaces the pair in
  place, with no merge, so the registry holds exactly one entry per description, in the
  slot of the description's first registration. Applying the registered constraints
  calls each stored rule once on the shared model, in the order of the registry, that is
  in the order in which the descriptions were first registered (a rule that replaced an
  earlier one runs in the earlier one's slot), stopping at the first rule that raises;
  the result is a function of the registrations and the model.
\<close>

theorem registry_first_slot_order:
  "dict_get (self_applied_constraints (add_constraints description constraint_func params self))
       description = Inr (constraint_func, params) \<and>
   keys (self_applied_constraints (add_constraints description constraint_func params self)) =
     (if description \<in> set (keys (self_applied_constraints self))
      then keys (self_applied_constraints self)
      else keys (self_applied_constraints self) @ [description]) \<and>
   (self_applied_constraints self = [] \<longrightarrow>
      self_applied_constraints (register_all regs self) = first_slots regs \<and>
      distinct (keys (self_applied_constraints (register_all regs self)))) \<and>
   apply_constraints self = run_rules (dict_values (self_applied_constraints self)) self"
proof (intro conjI impI)
  show "dict_get (self_applied_constraints (add_constraints description constraint_func params self))
       description = Inr (constraint_func, params)"
    by (simp add: add_constraints_def dict_set_def dict_get_def update_conv')
  show "keys (self_applied_constraints (add_constraints description constraint_func params self)) =
     (if description \<in> set (keys (self_applied_constraints self))
      then keys (self_applied_constraints self)
      else keys (self_applied_constraints self) @ [description])"
    by (simp add: add_constraints_def dict_set_def keys_def update_keys)
  show "apply_constraints self = run_rules (dict_values (self_applied_constraints self)) self"
    unfolding apply_constraints_def by (rule apply_constraints_run_rules_aux)
next
  assume e: "self_applied_constraints self = []"
  show "self_applied_constraints (register_all regs self) = first_slots regs"
    by (rule registry_register_all [OF e])
  then show "distinct (keys (self_applied_constraints (register_all regs self)))"
    by (simp add: keys_def distinct_first_slots)
qed

theorem registry_first_slot_order_witness:
  "self_applied_constraints demo_unbuilt = [] \<and>
   self_applied_constraints (register_all demo_registrations demo_unbuilt) =
     [(''Constraint A'', mark_rule, 3), (''Constraint B'', mark_rule, 2)] \<and>
   first_slots demo_registrations =
     [(''Constraint A'', mark_rule, 3), (''Constraint B'', mark_rule, 2)] \<and>
   distinct (keys (self_applied_constraints (register_all demo_registrations demo_unbuilt)))"
proof -
  have e: "self_applied_constraints demo_unbuilt = []" by (simp add: demo_unbuilt_def)
  have fs: "first_slots demo_registrations =
     [(''Constraint A'', mark_rule, 3), (''Constraint B'', mark_rule, 2)]"
    by (simp add: demo_registrations_def)
  from registry_first_slot_order [of _ _ _ demo_unbuilt demo_registrations] e
  have "self_applied_constraints (register_all demo_registrations demo_unbuilt) =
          first_slots demo_registrations \<and>
        distinct (keys (self_applied_constraints (register_all demo_registrations demo_unbuilt)))"
    by blast
  with e fs show ?thesis by (simp add: keys_def)
qed

section \<open>Rest-day variables outside the block rule\<close>

lemma keeps_refl: "keeps n A R m m"
  by (simp add: keeps_def extends_refl)

lemma keeps_trans:
  assumes "keeps n A R a b" "keeps n A R b c"
  shows "keeps n A R a c"
  unfolding keeps_def
proof (intro impI)
  assume n: "n \<le> length (variables a)"
  with assms(1) have ab: "extends a b"
    "\<forall>c \<in> set (constraints b). c \<in> set (constraints a) \<or> admitted n A R c"
    by (simp_all add: keeps_def)
  from n extends_length [OF ab(1)] have "n \<le> length (variables b)" by simp
  with assms(2) have bc: "extends b c"
    "\<forall>x \<in> set (constraints c). x \<in> set (constraints b) \<or> admitted n A R x"
    by (simp_all add: keeps_def)
  from ab(1) bc(1) have "extends a c" by (rule extends_trans)
  moreover from ab(2) bc(2)
  have "\<forall>x \<in> set (constraints c). x \<in> set (constraints a) \<or> admitted n A R x" by blast
  ultimately show "extends a c \<and>
      (\<forall>x \<in> set (constraints c). x \<in> set (constraints a) \<or> admitted n A R x)" by blast
qed

lemma for_each_keeps:
  assumes "for_each xs body s = Inr s'"
    and "\<And>x s s'. x \<in> set xs \<Longrightarrow> body x s = Inr s' \<Longrightarrow> keeps n A R s s'"
  shows "keeps n A R s s'"
  using for_each_rel [where R = "keeps n A R", OF keeps_refl keeps_trans assms(2) assms(1)]
  by simp

lemma keeps_add_ct:
  "admitted n A R c \<Longrightarrow> keeps n A R m (add_ct c m)"
  using extends_add_ct [of m c] by (auto simp: keeps_def add_ct_def)

lemma keeps_NewBoolVar: "NewBoolVar name m = (w, m1) \<Longrightarrow> keeps n A R m m1"
  by (auto simp: keeps_def NewBoolVar_def extends_def)

lemma lookup_all_ran:
  assumes "lookup_all d ks = Inr xs"
  shows "set xs \<subseteq> ran (map_of d)"
proof -
  from lookup_all_the [OF assms]
  have "xs = map (\<lambda>k. the (map_of d k)) ks" "\<forall>k \<in> set ks. \<exists>x. map_of d k = Some x" by blast+
  then show ?thesis by (auto simp: ran_def)
qed

lemma dict_get_ran: "dict_get d k = Inr x \<Longrightarrow> x \<in> ran (map_of d)"
  by (auto simp: dict_get_Inr ran_def)

lemma admitted_vars: "constraint_vars c \<subseteq> A \<Longrightarrow> admitted n A R c"
  by (auto simp: admitted_def)

lemma keeps_lookup_then:
  assumes "then_do (lookup_all shifts ks) (\<lambda>xs. Inr (f xs m)) = Inr m'"
    and "\<And>xs. set xs \<subseteq> ran (map_of shifts) \<Longrightarrow> keeps n (ran (map_of shifts)) R m (f xs m)"
  shows "keeps n (ran (map_of shifts)) R m m'"
proof -
  from assms(1) obtain xs where "lookup_all shifts ks = Inr xs" "m' = f xs m"
    by (auto simp: then_do_Inr_iff)
  with assms(2) [OF lookup_all_ran] show ?thesis by simp
qed

lemma keeps_Add_Linear:
  "set xs \<subseteq> A \<Longrightarrow> keeps n A R m (Add (Linear xs r c) m)"
  unfolding Add_def by (rule keeps_add_ct) (auto simp: admitted_def)

lemma keeps_AddExactlyOne: "set xs \<subseteq> A \<Longrightarrow> keeps n A R m (AddExactlyOne xs m)"
  unfolding AddExactlyOne_def by (rule keeps_add_ct) (auto simp: admitted_def)

lemma keeps_AddAtMostOne: "set xs \<subseteq> A \<Longrightarrow> keeps n A R m (AddAtMostOne xs m)"
  unfolding AddAtMostOne_def by (rule keeps_add_ct) (auto simp: admitted_def)

lemma limit_shifts_per_period_keeps:
  assumes "limit_shifts_per_period model shifts nurses days daily_shifts period_length shift_limit
             = Inr model'"
  shows "keeps n (ran (map_of shifts)) R model model'"
proof -
  from assms obtain periods where run: "for_each periods (\<lambda>period.
         (let period_days = py_range period (min (period + period_length) (int (length days)))
          in for_each (Nurse_column nurses) (\<lambda>nurse m.
               then_do (lookup_all shifts
                          [(nurse, day, shift). day \<leftarrow> period_days, shift \<leftarrow> keys daily_shifts])
                 (\<lambda>xs. Inr (Add (Linear xs LE shift_limit) m))))) model = Inr model'"
    by (auto simp: limit_shifts_per_period_def then_do_Inr_iff)
  show ?thesis
  proof (rule for_each_keeps [OF run])
    fix period s s'
    assume "(let period_days = py_range period (min (period + period_length) (int (length days)))
          in for_each (Nurse_column nurses) (\<lambda>nurse m.
               then_do (lookup_all shifts
                          [(nurse, day, shift). day \<leftarrow> period_days, shift \<leftarrow> keys daily_shifts])
                 (\<lambda>xs. Inr (Add (Linear xs LE shift_limit) m)))) s = Inr s'"
    then show "keeps n (ran (map_of shifts)) R s s'"
      unfolding Let_def
      by (rule for_each_keeps) (erule keeps_lookup_then, rule keeps_Add_Linear)
  qed
qed

lemma single_nurse_per_shift_keeps:
  assumes "single_nurse_per_shift model shifts nurses days daily_shifts = Inr model'"
  shows "keeps n (ran (map_of shifts)) R model model'"
  using assms unfolding single_nurse_per_shift_def
  by (rule for_each_keeps)
     (erule for_each_keeps, erule keeps_lookup_then, rule keeps_AddExactlyOne)

lemma limit_nurse_per_team_per_day_keeps:
  assumes "limit_nurse_per_team_per_day model shifts nurses days daily_shifts nurse_limit
             = Inr model'"
  shows "keeps n (ran (map_of shifts)) R model model'"
  using assms unfolding limit_nurse_per_team_per_day_def
  by (rule for_each_keeps)
     (erule for_each_keeps, erule keeps_lookup_then, rule keeps_Add_Linear)

lemma keeps_two_adds:
  "set xs \<subseteq> A \<Longrightarrow> keeps n A R m (Add (Linear xs r c) (Add (Linear xs r' c') m))"
  by (rule keeps_trans [OF keeps_Add_Linear keeps_Add_Linear])

lemma distribute_shifts_evenly_keeps:
  assumes "distribute_shifts_evenly model shifts nurses days daily_shifts num_nurses tolerance
             = Inr model'"
  shows "keeps n (ran (map_of shifts)) R model model'"
  using assms unfolding distribute_shifts_evenly_def Let_def
  by (auto split: if_splits elim!: for_each_keeps keeps_lookup_then intro: keeps_two_adds)

lemma max_shifts_per_week_keeps:
  assumes "max_shifts_per_week model shifts nurses days daily_shifts num_days shift_limit
             = Inr model'"
  shows "keeps n (ran (map_of shifts)) R model model'"
  using assms unfolding max_shifts_per_week_def Let_def
  by (auto simp: then_do_Inr_iff elim!: for_each_keeps keeps_lookup_then intro: keeps_Add_Linear)

lemma limit_consecutive_shifts_keeps:
  assumes "limit_consecutive_shifts model shifts nurses days num_days limited_shifts
             num_consecutive = Inr model'"
  shows "keeps n (ran (map_of shifts)) R model model'"
  using assms unfolding limit_consecutive_shifts_def Let_def
  by (rule for_each_keeps)
     (erule for_each_keeps, erule keeps_lookup_then, rule keeps_AddAtMostOne)

lemma distribute_night_shifts_evenly_keeps:
  assumes "distribute_night_shifts_evenly model shifts nurses days num_nurses shift_index
             = Inr model'"
  shows "keeps n (ran (map_of shifts)) R model model'"
  using assms unfolding distribute_night_shifts_evenly_def Let_def
  by (auto split: if_splits elim!: for_each_keeps keeps_lookup_then intro: keeps_two_adds)


lemma limit_shifts_after_shifts_keeps:
  assumes "limit_shifts_after_shifts model shifts nurses days first_shifts limited_shifts
             num_consecutive allowed_num_shifts = Inr model'"
  shows "keeps n (ran (map_of shifts)) R model model'"
  using assms unfolding limit_shifts_after_shifts_def Let_def
proof (rule for_each_keeps, elim for_each_keeps)
  fix day nurse s s'
  assume "(case NewBoolVar (worked_shift_name nurse day) s of
            (worked_shifts_first, m1) \<Rightarrow>
              then_do (lookup_all shifts (map (\<lambda>shift. (nurse, day, shift)) first_shifts))
                (\<lambda>firsts. then_do
                     (lookup_all shifts
                        (concat (map (\<lambda>offset. map (\<lambda>shift. (nurse, day + offset, shift))
                                                  limited_shifts)
                                   (py_range0 (min num_consecutive (int (length days) - day))))))
                     (\<lambda>xs. Inr (Add_OnlyEnforceIf (Linear xs EQ allowed_num_shifts)
                                   worked_shifts_first
                                   (AddMaxEquality worked_shifts_first firsts m1))))) = Inr s'"
  from after_body_run [OF this] obtain firsts xs where
    f: "set firsts \<subseteq> ran (map_of shifts)" "set xs \<subseteq> ran (map_of shifts)"
    and v: "variables s' = variables s @ [worked_shift_name nurse day]"
    and c: "constraints s' = constraints s @
             [Constraint (MaxEquality (length (variables s)) firsts) [],
              Constraint (Linear xs EQ allowed_num_shifts) [length (variables s)]]"
    by (auto dest: lookup_all_ran)
  show "keeps n (ran (map_of shifts)) R s s'"
    unfolding keeps_def
  proof (intro impI conjI ballI)
    show "extends s s'" by (simp add: extends_def v c)
  next
    fix x assume n: "n \<le> length (variables s)" and "x \<in> set (constraints s')"
    then consider "x \<in> set (constraints s)"
      | "x = Constraint (MaxEquality (length (variables s)) firsts) []"
      | "x = Constraint (Linear xs EQ allowed_num_shifts) [length (variables s)]"
      by (auto simp: c)
    then show "x \<in> set (constraints s) \<or> admitted n (ran (map_of shifts)) R x"
    proof cases
      case 1
      then show ?thesis by simp
    next
      case 2
      with f n show ?thesis by (auto simp: admitted_def)
    next
      case 3
      with f n show ?thesis by (auto simp: admitted_def)
    qed
  qed
qed

lemma keeps_Add_VarEq:
  "{a, b} \<subseteq> A \<union> {x. n \<le> x} \<Longrightarrow> keeps n A R m (Add (VarEq a b) m)"
  unfolding Add_def by (rule keeps_add_ct) (auto simp: admitted_def)

lemma block_days_keeps:
  assumes "block_days shifts nurse day num_days shift_index num_consecutive m = Inr m'"
  shows "keeps n (ran (map_of shifts)) R m m'"
  using assms unfolding block_days_def
proof (rule for_each_keeps)
  fix k s s'
  assume "(let shift_day_index = day + k
           in if shift_day_index < num_days
              then then_do (dict_get shifts (nurse, shift_day_index, shift_index))
                     (\<lambda>a. then_do (dict_get shifts (nurse, day, shift_index))
                            (\<lambda>b. Inr (Add (VarEq a b) s)))
              else Inr s) = Inr s'"
  then show "keeps n (ran (map_of shifts)) R s s'"
    by (auto simp: Let_def then_do_Inr_iff keeps_refl split: if_splits
             dest!: dict_get_ran intro!: keeps_Add_VarEq)
qed

lemma rest_after_block_keeps:
  assumes run: "rest_after_block shifts rest_days daily_shifts nurse day num_days num_consecutive
                  w m = Inr m'"
    and w: "n \<le> w"
    and K: "\<And>off. off \<in> set (py_range0 2) \<Longrightarrow> day + num_consecutive + off < num_days \<Longrightarrow>
              (nurse, day + num_consecutive + off) \<in> K"
  shows "keeps n (ran (map_of shifts)) {r. \<exists>k \<in> K. map_of rest_days k = Some r} m m'"
  using run unfolding rest_after_block_def Let_def
proof (rule for_each_keeps)
  fix off s s'
  let ?d = "day + num_consecutive + off"
  let ?R = "{r. \<exists>k \<in> K. map_of rest_days k = Some r}"
  assume off: "off \<in> set (py_range0 2)"
    and step: "(if ?d < num_days
           then then_do (lookup_all shifts (map (\<lambda>shift. (nurse, ?d, shift)) (keys daily_shifts)))
                  (\<lambda>xs. then_do (dict_get rest_days (nurse, ?d))
                          (\<lambda>r. Inr (Add (VarEq r w)
                                      (Add_OnlyEnforceIf (Linear xs EQ 0) w s))))
           else Inr s) = Inr s'"
  show "keeps n (ran (map_of shifts)) ?R s s'"
  proof (cases "?d < num_days")
    case False
    with step show ?thesis by (simp add: keeps_refl)
  next
    case True
    with step obtain xs r where xs: "lookup_all shifts
          (map (\<lambda>shift. (nurse, ?d, shift)) (keys daily_shifts)) = Inr xs"
      and r: "dict_get rest_days (nurse, ?d) = Inr r"
      and s': "s' = Add (VarEq r w) (Add_OnlyEnforceIf (Linear xs EQ 0) w s)"
      by (auto simp: then_do_Inr_iff)
    from K [OF off True] r have rR: "r \<in> ?R" by (auto simp: dict_get_Inr)
    have a1: "admitted n (ran (map_of shifts)) ?R (Constraint (Linear xs EQ 0) [w])"
      using lookup_all_ran [OF xs] w by (auto simp: admitted_def)
    have a2: "admitted n (ran (map_of shifts)) ?R (Constraint (VarEq r w) [])"
      using rR w unfolding admitted_def by blast
    show ?thesis
      unfolding s' Add_def Add_OnlyEnforceIf_def
      by (rule keeps_trans [OF keeps_add_ct [OF a1] keeps_add_ct [OF a2]])
  qed
qed

lemma in_rest_follow_keys:
  assumes "day \<in> set days" "is_block_start start_day start_shift_day day"
    "nurse \<in> set (Nurse_column nurses)" "off \<in> set (py_range0 2)"
    "day + num_consecutive + off < num_days"
  shows "(nurse, day + num_consecutive + off)
           \<in> set (rest_follow_keys nurses days start_day num_days start_shift_day num_consecutive)"
  using assms unfolding rest_follow_keys_def by auto

lemma assign_consecutive_shifts_keeps:
  assumes run: "assign_consecutive_shifts model shifts rest_days nurses days daily_shifts
                  start_day num_days start_shift_day shift_index num_consecutive = Inr model'"
  shows "keeps n (ran (map_of shifts))
           {r. \<exists>k \<in> set (rest_follow_keys nurses days start_day num_days start_shift_day
                            num_consecutive). map_of rest_days k = Some r}
           model model'"
  using run unfolding assign_consecutive_shifts_def Let_def
proof (rule for_each_keeps)
  let ?K = "set (rest_follow_keys nurses days start_day num_days start_shift_day num_consecutive)"
  let ?R = "{r. \<exists>k \<in> ?K. map_of rest_days k = Some r}"
  let ?A = "ran (map_of shifts)"
  fix day s s'
  assume day: "day \<in> set days"
    and step: "then_do (what_day day start_day)
          (\<lambda>wd. for_each (Nurse_column nurses)
                  (\<lambda>nurse m.
                      if fst wd = start_shift_day
                      then case NewBoolVar (worked_shift_name nurse day) m of
                           (worked_consecutive_shifts, m1) \<Rightarrow>
                             then_do (dict_get shifts (nurse, day, shift_index))
                              (\<lambda>x. then_do
                                      (block_days shifts nurse day num_days shift_index
                                        num_consecutive
                                        (Add (VarEq worked_consecutive_shifts x) m1))
                                      (rest_after_block shifts rest_days daily_shifts nurse
                                        day num_days num_consecutive
                                        worked_consecutive_shifts))
                      else Inr m)
                  s) = Inr s'"
  then obtain wd where wd: "what_day day start_day = Inr wd"
    and inner: "for_each (Nurse_column nurses)
                  (\<lambda>nurse m.
                      if fst wd = start_shift_day
                      then case NewBoolVar (worked_shift_name nurse day) m of
                           (worked_consecutive_shifts, m1) \<Rightarrow>
                             then_do (dict_get shifts (nurse, day, shift_index))
                              (\<lambda>x. then_do
                                      (block_days shifts nurse day num_days shift_index
                                        num_consecutive
                                        (Add (VarEq worked_consecutive_shifts x) m1))
                                      (rest_after_block shifts rest_days daily_shifts nurse
                                        day num_days num_consecutive
                                        worked_consecutive_shifts))
                      else Inr m)
                  s = Inr s'"
    by (auto simp: then_do_Inr_iff)
  show "keeps n ?A ?R s s'"
  proof (rule for_each_keeps [OF inner])
    fix nurse m m'
    assume nurse: "nurse \<in> set (Nurse_column nurses)"
      and body: "(if fst wd = start_shift_day
                  then case NewBoolVar (worked_shift_name nurse day) m of
                       (worked_consecutive_shifts, m1) \<Rightarrow>
                         then_do (dict_get shifts (nurse, day, shift_index))
                          (\<lambda>x. then_do
                                  (block_days shifts nurse day num_days shift_index
                                    num_consecutive
                                    (Add (VarEq worked_consecutive_shifts x) m1))
                                  (rest_after_block shifts rest_days daily_shifts nurse
                                    day num_days num_consecutive
                                    worked_consecutive_shifts))
                  else Inr m) = Inr m'"
    show "keeps n ?A ?R m m'"
    proof (cases "fst wd = start_shift_day")
      case False
      with body show ?thesis by (simp add: keeps_refl)
    next
      case True
      then have bs: "is_block_start start_day start_shift_day day"
        by (simp add: is_block_start_def wd)
      let ?w = "length (variables m)"
      let ?m1 = "m\<lparr>variables := variables m @ [worked_shift_name nurse day]\<rparr>"
      from body True obtain x0 m2 where
        x0: "dict_get shifts (nurse, day, shift_index) = Inr x0"
        and b: "block_days shifts nurse day num_days shift_index num_consecutive
                  (Add (VarEq ?w x0) ?m1) = Inr m2"
        and r: "rest_after_block shifts rest_days daily_shifts nurse day num_days
                  num_consecutive ?w m2 = Inr m'"
        by (auto simp: NewBoolVar_def then_do_Inr_iff)
      show ?thesis
        unfolding keeps_def
      proof (intro impI)
        assume n: "n \<le> ?w"
        have k1: "keeps n ?A ?R m ?m1"
          by (rule keeps_NewBoolVar [of "worked_shift_name nurse day" m ?w])
             (simp add: NewBoolVar_def)
        have k2: "keeps n ?A ?R ?m1 (Add (VarEq ?w x0) ?m1)"
          using n dict_get_ran [OF x0] by (intro keeps_Add_VarEq) auto
        have k3: "keeps n ?A ?R (Add (VarEq ?w x0) ?m1) m2"
          by (rule block_days_keeps [OF b])
        have k4: "keeps n ?A ?R m2 m'"
          by (rule rest_after_block_keeps [OF r n])
             (rule in_rest_follow_keys [OF day bs nurse])
        have "keeps n ?A ?R m m'"
          by (rule keeps_trans [OF k1 keeps_trans [OF k2 keeps_trans [OF k3 k4]]])
        with n show "extends m m' \<and>
            (\<forall>c \<in> set (constraints m'). c \<in> set (constraints m) \<or> admitted n ?A ?R c)"
          by (simp add: keeps_def)
      qed
    qed
  qed
qed

section \<open>Rest-day variables that no rule constrains\<close>

lemma new_bool_vars_fresh:
  assumes "new_bool_vars name ks d m = (d', m')"
    and "L \<le> length (variables m)"
    and "\<And>k x. map_of d k = Some x \<Longrightarrow> L \<le> x \<and> x < length (variables m)"
    and "\<And>k k' x. map_of d k = Some x \<Longrightarrow> map_of d k' = Some x \<Longrightarrow> k = k'"
  shows "(\<forall>k x. map_of d' k = Some x \<longrightarrow> L \<le> x \<and> x < length (variables m')) \<and>
         (\<forall>k k' x. map_of d' k = Some x \<longrightarrow> map_of d' k' = Some x \<longrightarrow> k = k')"
  using assms
proof (induction ks arbitrary: d m)
  case Nil
  then show ?case by auto
next
  case (Cons k0 ks)
  let ?v = "length (variables m)"
  let ?m1 = "m\<lparr>variables := variables m @ [name k0]\<rparr>"
  let ?d1 = "dict_set k0 ?v d"
  from Cons.prems(1) have run: "new_bool_vars name ks ?d1 ?m1 = (d', m')"
    by (simp add: NewBoolVar_def)
  have mo: "map_of ?d1 = (map_of d)(k0 \<mapsto> ?v)"
    by (simp add: dict_set_def update_conv')
  have L: "L \<le> length (variables ?m1)" using Cons.prems(2) by simp
  have vals: "\<And>k x. map_of ?d1 k = Some x \<Longrightarrow> L \<le> x \<and> x < length (variables ?m1)"
  proof -
    fix k x assume "map_of ?d1 k = Some x"
    then have "x = ?v \<or> map_of d k = Some x" by (auto simp: mo split: if_splits)
    then show "L \<le> x \<and> x < length (variables ?m1)"
      using Cons.prems(2) Cons.prems(3) [of k x] by auto
  qed
  have inj: "\<And>k k' x. map_of ?d1 k = Some x \<Longrightarrow> map_of ?d1 k' = Some x \<Longrightarrow> k = k'"
  proof -
    fix k k' x assume a: "map_of ?d1 k = Some x" "map_of ?d1 k' = Some x"
    show "k = k'"
    proof (cases "k = k0")
      case True
      with a(1) have x: "x = ?v" by (simp add: mo)
      show ?thesis
      proof (cases "k' = k0")
        case True
        with \<open>k = k0\<close> show ?thesis by simp
      next
        case False
        with a(2) x have "map_of d k' = Some ?v" by (simp add: mo)
        with Cons.prems(3) [of k' ?v] show ?thesis by simp
      qed
    next
      case False
      with a(1) have dk: "map_of d k = Some x" by (simp add: mo)
      show ?thesis
      proof (cases "k' = k0")
        case True
        with a(2) have "x = ?v" by (simp add: mo)
        with dk Cons.prems(3) [of k x] show ?thesis by simp
      next
        case False
        with a(2) have "map_of d k' = Some x" by (simp add: mo)
        with dk show ?thesis by (rule Cons.prems(4))
      qed
    qed
  qed
  show ?case by (rule Cons.IH [OF run L vals inj])
qed

lemma post_init_universe_facts:
  assumes "post_init nurses daily_shifts num_days start_day = Inr self"
  shows "\<exists>NS. (\<forall>k x. map_of (self_shifts self) k = Some x \<longrightarrow> x < NS) \<and>
              (\<forall>k r. map_of (self_rest_days self) k = Some r \<longrightarrow>
                  NS \<le> r \<and> r < length (variables (self_model self))) \<and>
              (\<forall>k k' r. map_of (self_rest_days self) k = Some r \<longrightarrow>
                  map_of (self_rest_days self) k' = Some r \<longrightarrow> k = k') \<and>
              constraints (self_model self) = []"
proof -
  let ?sk = "shift_keys nurses (py_range0 num_days) daily_shifts"
  let ?rk = "rest_keys nurses (py_range0 num_days)"
  obtain shifts m1 where r1: "new_bool_vars shift_name ?sk [] CpModel = (shifts, m1)"
    by (cases "new_bool_vars shift_name ?sk [] CpModel")
  obtain rest_days m2 where r2: "new_bool_vars rest_name ?rk [] m1 = (rest_days, m2)"
    by (cases "new_bool_vars rest_name ?rk [] m1")
  from assms have s: "self_shifts self = shifts" "self_rest_days self = rest_days"
      "self_model self = m2"
    by (auto simp: post_init_def Let_def r1 r2)
  from new_bool_vars_fresh [OF r1, of 0]
  have f1: "\<forall>k x. map_of shifts k = Some x \<longrightarrow> x < length (variables m1)" by simp
  from new_bool_vars_fresh [OF r2, of "length (variables m1)"]
  have f2: "\<forall>k x. map_of rest_days k = Some x \<longrightarrow>
              length (variables m1) \<le> x \<and> x < length (variables m2)"
    and f3: "\<forall>k k' x. map_of rest_days k = Some x \<longrightarrow> map_of rest_days k' = Some x \<longrightarrow> k = k'"
    by simp_all
  from new_bool_vars_model [OF r1] new_bool_vars_model [OF r2]
  have c: "constraints m2 = []" by (simp add: CpModel_def)
  from f1 f2 f3 c show ?thesis unfolding s by blast
qed


text \<open>
  In a built model every constraint that mentions a rest-day variable equates it with a
  variable created after construction, and the key of that rest-day variable is coupled.
\<close>

lemma built_invariant:
  assumes b: "built shifts rest_days model0 coupled model"
    and sh: "\<And>k x. map_of shifts k = Some x \<Longrightarrow> x < NS"
    and rs: "\<And>k r. map_of rest_days k = Some r \<Longrightarrow> NS \<le> r \<and> r < length (variables model0)"
    and inj: "\<And>k k' r. map_of rest_days k = Some r \<Longrightarrow> map_of rest_days k' = Some r \<Longrightarrow> k = k'"
    and c0: "constraints model0 = []"
  shows "extends model0 model \<and>
         (\<forall>c \<in> set (constraints model). \<forall>k r.
             map_of rest_days k = Some r \<longrightarrow> r \<in> constraint_vars c \<longrightarrow>
               k \<in> coupled \<and>
               (\<exists>w. length (variables model0) \<le> w \<and> c = Constraint (VarEq r w) []))"
proof -
  let ?N = "length (variables model0)"
  let ?A = "ran (map_of shifts)"
  let ?Inv = "\<lambda>C m. extends model0 m \<and>
         (\<forall>c \<in> set (constraints m). \<forall>k r.
             map_of rest_days k = Some r \<longrightarrow> r \<in> constraint_vars c \<longrightarrow>
               k \<in> C \<and> (\<exists>w. ?N \<le> w \<and> c = Constraint (VarEq r w) []))"
  have step: "?Inv (C \<union> K) m'"
    if inv: "?Inv C m"
      and k: "keeps ?N ?A {r. \<exists>k \<in> K. map_of rest_days k = Some r} m m'"
    for C K m m'
  proof -
    from inv have e0: "extends model0 m" by simp
    then have n: "?N \<le> length (variables m)" by (rule extends_length)
    with k have e: "extends m m'"
      and adm: "\<forall>c \<in> set (constraints m'). c \<in> set (constraints m) \<or>
                  admitted ?N ?A {r. \<exists>k \<in> K. map_of rest_days k = Some r} c"
      by (simp_all add: keeps_def)
    have "k1 \<in> C \<union> K \<and> (\<exists>w. ?N \<le> w \<and> c = Constraint (VarEq r w) [])"
      if c: "c \<in> set (constraints m')" and r: "map_of rest_days k1 = Some r"
        and rc: "r \<in> constraint_vars c" for c k1 r
    proof -
      from rs [OF r] have rb: "NS \<le> r" "r < ?N" by simp_all
      have rA: "r \<notin> ?A" using sh rb(1) by (fastforce simp: ran_def)
      from adm c consider "c \<in> set (constraints m)"
        | "constraint_vars c \<subseteq> ?A \<union> {x. ?N \<le> x}"
        | r' w where "\<exists>k \<in> K. map_of rest_days k = Some r'" "?N \<le> w"
            "c = Constraint (VarEq r' w) []"
        unfolding admitted_def by blast
      then show ?thesis
      proof cases
        case 1
        with inv r rc show ?thesis by blast
      next
        case 2
        with rc rA rb(2) show ?thesis by auto
      next
        case 3
        from 3(3) rc have "r = r' \<or> r = w" by simp
        with 3(2) rb(2) have rr: "r = r'" by auto
        from 3(1) obtain k2 where k2: "k2 \<in> K" "map_of rest_days k2 = Some r'" by blast
        from inj [OF r] k2(2) rr have "k1 = k2" by simp
        with k2(1) 3(2,3) rr show ?thesis by blast
      qed
    qed
    moreover from e0 e have "extends model0 m'" by (rule extends_trans)
    ultimately show ?thesis by blast
  qed
  have step0: "?Inv C m'" if inv: "?Inv C m"
      and k: "keeps ?N ?A {r. \<exists>k \<in> {}. map_of rest_days k = Some r} m m'" for C m m'
    using step [OF inv k] by simp
  from b show ?thesis
  proof (induction rule: built.induct)
    case built_start
    then show ?case by (simp add: extends_refl c0)
  next
    case (built_limit_shifts_per_period coupled model nurses days daily_shifts period_length
        shift_limit model')
    show ?case
      by (rule step0 [OF built_limit_shifts_per_period.IH])
         (rule limit_shifts_per_period_keeps [OF built_limit_shifts_per_period.hyps(2)])
  next
    case (built_single_nurse_per_shift coupled model nurses days daily_shifts model')
    show ?case
      by (rule step0 [OF built_single_nurse_per_shift.IH])
         (rule single_nurse_per_shift_keeps [OF built_single_nurse_per_shift.hyps(2)])
  next
    case (built_limit_nurse_per_team_per_day coupled model nurses days daily_shifts nurse_limit
        model')
    show ?case
      by (rule step0 [OF built_limit_nurse_per_team_per_day.IH])
         (rule limit_nurse_per_team_per_day_keeps [OF built_limit_nurse_per_team_per_day.hyps(2)])
  next
    case (built_distribute_shifts_evenly coupled model nurses days daily_shifts num_nurses
        tolerance model')
    show ?case
      by (rule step0 [OF built_distribute_shifts_evenly.IH])
         (rule distribute_shifts_evenly_keeps [OF built_distribute_shifts_evenly.hyps(2)])
  next
    case (built_max_shifts_per_week coupled model nurses days daily_shifts num_days shift_limit
        model')
    show ?case
      by (rule step0 [OF built_max_shifts_per_week.IH])
         (rule max_shifts_per_week_keeps [OF built_max_shifts_per_week.hyps(2)])
  next
    case (built_limit_consecutive_shifts coupled model nurses days num_days limited_shifts
        num_consecutive model')
    show ?case
      by (rule step0 [OF built_limit_consecutive_shifts.IH])
         (rule limit_consecutive_shifts_keeps [OF built_limit_consecutive_shifts.hyps(2)])
  next
    case (built_limit_shifts_after_shifts coupled model nurses days first_shifts limited_shifts
        num_consecutive allowed_num_shifts model')
    show ?case
      by (rule step0 [OF built_limit_shifts_after_shifts.IH])
         (rule limit_shifts_after_shifts_keeps [OF built_limit_shifts_after_shifts.hyps(2)])
  next
    case (built_distribute_night_shifts_evenly coupled model nurses days num_nurses shift_index
        model')
    show ?case
      by (rule step0 [OF built_distribute_night_shifts_evenly.IH])
         (rule distribute_night_shifts_evenly_keeps
                 [OF built_distribute_night_shifts_evenly.hyps(2)])
  next
    case (built_assign_consecutive_shifts coupled model nurses days daily_shifts start_day
        num_days start_shift_day shift_index num_consecutive model')
    show ?case
      by (rule step [OF built_assign_consecutive_shifts.IH])
         (rule assign_consecutive_shifts_keeps [OF built_assign_consecutive_shifts.hyps(2)])
  qed
qed

lemma map_upd_notin: "r \<notin> set xs \<Longrightarrow> map (v(r := a)) xs = map v xs"
  by (induction xs) auto

lemma holds_upd:
  "r \<notin> ct_vars e \<Longrightarrow> holds (v(r := a)) e = holds v e"
  by (cases e) (auto simp: map_upd_notin)

lemma satisfied_upd:
  assumes "r \<notin> constraint_vars c"
  shows "satisfied (v(r := a)) c = satisfied v c"
proof (cases c)
  case (Constraint e lits)
  with assms have "r \<notin> ct_vars e" "r \<notin> set lits" by simp_all
  then have "holds (v(r := a)) e = holds v e" "\<forall>l \<in> set lits. (v(r := a)) l = v l"
    by (auto simp: holds_upd)
  with Constraint show ?thesis by simp
qed

lemma feasible_upd:
  assumes "feasible v m" "\<forall>c \<in> set (constraints m). r \<notin> constraint_vars c"
  shows "feasible (v(r := 1)) m"
  using assms unfolding feasible_def by (auto simp: satisfied_upd)


lemma value_is_1_upd_other:
  assumes "\<And>x. map_of d k = Some x \<Longrightarrow> x \<noteq> r"
  shows "value_is_1 (v(r := a)) d k = value_is_1 v d k"
  using assms by (auto simp: value_is_1_def split: option.splits)

text \<open>
  C10. On the constructed universe, in any model built by rules of the library, a
  constraint mentions a rest-day variable \<open>r[n, d]\<close> only as \<open>r[n, d] = w\<close> for a block
  indicator \<open>w\<close>, and only when \<open>(n, d)\<close> is one of the two days after a block of some
  call of \<open>assign_consecutive_shifts\<close>. Every other rest-day variable is created but
  mentioned by no constraint: from any satisfying assignment, setting that variable to 1
  gives a satisfying assignment again, with the same assigned shifts and the same value
  of every other rest-day variable. Whenever \<open>solve\<close> returns on that assignment, of
  either scheduler, its RestDay output is exactly the keys whose variable is 1, and
  \<open>(n, d)\<close> is among them; and \<open>solve\<close> does return on it with status OPTIMAL and a
  canonical start day, for \<open>scheduler.py\<close> when the assigned shifts fill its rota.
\<close>

theorem rest_day_unconstrained:
  assumes init: "post_init nurses daily_shifts num_days start_day = Inr self"
    and b: "built (self_shifts self) (self_rest_days self) (self_model self) coupled model"
    and key: "(nurse, day) \<in> set (keys (self_rest_days self))"
    and free: "(nurse, day) \<notin> coupled"
    and feas: "feasible v model"
  shows "(\<forall>c \<in> set (constraints model). \<forall>k r.
            dict_get (self_rest_days self) k = Inr r \<longrightarrow> r \<in> constraint_vars c \<longrightarrow>
              k \<in> coupled \<and>
              (\<exists>w. length (variables (self_model self)) \<le> w \<and> c = Constraint (VarEq r w) [])) \<and>
         (\<exists>r. dict_get (self_rest_days self) (nurse, day) = Inr r \<and>
              r < length (variables (self_model self)) \<and>
              (\<forall>c \<in> set (constraints model). r \<notin> constraint_vars c) \<and>
              feasible (v(r := 1)) model \<and>
              filter (value_is_1 (v(r := 1)) (self_shifts self)) (keys (self_shifts self)) =
                filter (value_is_1 v (self_shifts self)) (keys (self_shifts self)) \<and>
              (\<forall>k. k \<noteq> (nurse, day) \<longrightarrow>
                   value_is_1 (v(r := 1)) (self_rest_days self) k =
                   value_is_1 v (self_rest_days self) k) \<and>
              (nurse, day) \<in> set (filter (value_is_1 (v(r := 1)) (self_rest_days self))
                                     (keys (self_rest_days self))) \<and>
              (\<forall>status solved.
                   solve (status, v(r := 1)) (self\<lparr>self_model := model\<rparr>) = Inr solved \<or>
                   solve_basis (status, v(r := 1)) (self\<lparr>self_model := model\<rparr>) = Inr solved \<longrightarrow>
                     self_assigned_rests solved =
                       Some (filter (value_is_1 (v(r := 1)) (self_rest_days self))
                               (keys (self_rest_days self)))) \<and>
              (start_day \<in> set days_of_week \<longrightarrow>
                 (\<exists>solved. solve_basis (OPTIMAL, v(r := 1)) (self\<lparr>self_model := model\<rparr>)
                              = Inr solved) \<and>
                 (distinct (map (\<lambda>(n, d, s). (d, s))
                    (filter (value_is_1 v (self_shifts self)) (keys (self_shifts self)))) \<and>
                  length (remdups (map (\<lambda>(n, d, s). s)
                    (filter (value_is_1 v (self_shifts self)) (keys (self_shifts self)))))
                    = length daily_shifts \<longrightarrow>
                    (\<exists>solved. solve (OPTIMAL, v(r := 1)) (self\<lparr>self_model := model\<rparr>)
                                 = Inr solved))))"
proof -
  from post_init_universe_facts [OF init] obtain NS where
    sh: "\<And>k x. map_of (self_shifts self) k = Some x \<Longrightarrow> x < NS"
    and rs: "\<And>k r. map_of (self_rest_days self) k = Some r \<Longrightarrow>
               NS \<le> r \<and> r < length (variables (self_model self))"
    and inj: "\<And>k k' r. map_of (self_rest_days self) k = Some r \<Longrightarrow>
               map_of (self_rest_days self) k' = Some r \<Longrightarrow> k = k'"
    and c0: "constraints (self_model self) = []"
    by blast
  have "extends (self_model self) model \<and>
         (\<forall>c \<in> set (constraints model). \<forall>k r.
             map_of (self_rest_days self) k = Some r \<longrightarrow> r \<in> constraint_vars c \<longrightarrow>
               k \<in> coupled \<and>
               (\<exists>w. length (variables (self_model self)) \<le> w \<and> c = Constraint (VarEq r w) []))"
  proof (rule built_invariant [OF b, where NS = NS])
    show "\<And>k x. map_of (self_shifts self) k = Some x \<Longrightarrow> x < NS" by (rule sh)
    show "\<And>k r. map_of (self_rest_days self) k = Some r \<Longrightarrow>
               NS \<le> r \<and> r < length (variables (self_model self))" by (rule rs)
    show "\<And>k k' r. map_of (self_rest_days self) k = Some r \<Longrightarrow>
               map_of (self_rest_days self) k' = Some r \<Longrightarrow> k = k'" by (rule inj)
    show "constraints (self_model self) = []" by (rule c0)
  qed
  then have inv: "\<forall>c \<in> set (constraints model). \<forall>k r.
             map_of (self_rest_days self) k = Some r \<longrightarrow> r \<in> constraint_vars c \<longrightarrow>
               k \<in> coupled \<and>
               (\<exists>w. length (variables (self_model self)) \<le> w \<and> c = Constraint (VarEq r w) [])"
    by blast
  from key have "(nurse, day) \<in> fst ` set (self_rest_days self)" by (simp add: keys_def)
  from map_of_defined [OF this] obtain r where
    r: "map_of (self_rest_days self) (nurse, day) = Some r" by blast
  let ?v = "v(r := 1)"
  let ?s = "self\<lparr>self_model := model\<rparr>"
  let ?rests = "filter (value_is_1 ?v (self_rest_days self)) (keys (self_rest_days self))"
  let ?rota = "filter (value_is_1 v (self_shifts self)) (keys (self_shifts self))"
  have un: "\<forall>c \<in> set (constraints model). r \<notin> constraint_vars c"
    using inv r free by blast
  have f': "feasible ?v model" using feas un by (rule feasible_upd)
  have shv: "value_is_1 ?v (self_shifts self) k = value_is_1 v (self_shifts self) k" for k
  proof (rule value_is_1_upd_other)
    fix x assume "map_of (self_shifts self) k = Some x"
    from sh [OF this] rs [OF r] show "x \<noteq> r" by simp
  qed
  have shv': "value_is_1 ?v (self_shifts self) = value_is_1 v (self_shifts self)"
    by (rule ext) (rule shv)
  have rota: "filter (value_is_1 ?v (self_shifts self)) (keys (self_shifts self)) = ?rota"
    by (simp only: shv')
  have others: "\<forall>k. k \<noteq> (nurse, day) \<longrightarrow>
      value_is_1 ?v (self_rest_days self) k = value_is_1 v (self_rest_days self) k"
  proof (intro allI impI)
    fix k assume ne: "k \<noteq> (nurse, day)"
    show "value_is_1 ?v (self_rest_days self) k = value_is_1 v (self_rest_days self) k"
    proof (rule value_is_1_upd_other)
      fix x assume "map_of (self_rest_days self) k = Some x"
      with inj [OF this, of "(nurse, day)"] r ne show "x \<noteq> r" by auto
    qed
  qed
  have "value_is_1 ?v (self_rest_days self) (nurse, day)"
    using r by (simp add: value_is_1_def)
  with key have mem: "(nurse, day) \<in> set ?rests" by simp
  have exact: "\<forall>status solved.
      solve (status, ?v) ?s = Inr solved \<or> solve_basis (status, ?v) ?s = Inr solved \<longrightarrow>
        self_assigned_rests solved = Some ?rests"
  proof (intro allI impI)
    fix status solved
    assume "solve (status, ?v) ?s = Inr solved \<or> solve_basis (status, ?v) ?s = Inr solved"
    then show "self_assigned_rests solved = Some ?rests"
    proof
      assume "solve (status, ?v) ?s = Inr solved"
      from solve_Inr(2) [OF this] show ?thesis by simp
    next
      assume "solve_basis (status, ?v) ?s = Inr solved"
      from solve_basis_Inr(2) [OF this] show ?thesis by simp
    qed
  qed
  have fields: "self_start_day self = start_day" "self_daily_shifts self = daily_shifts"
  proof -
    let ?sk = "shift_keys nurses (py_range0 num_days) daily_shifts"
    let ?rk = "rest_keys nurses (py_range0 num_days)"
    obtain shifts m1 where r1: "new_bool_vars shift_name ?sk [] CpModel = (shifts, m1)"
      by (cases "new_bool_vars shift_name ?sk [] CpModel")
    obtain rest_days m2 where r2: "new_bool_vars rest_name ?rk [] m1 = (rest_days, m2)"
      by (cases "new_bool_vars rest_name ?rk [] m1")
    from init show "self_start_day self = start_day" "self_daily_shifts self = daily_shifts"
      by (auto simp: post_init_def Let_def r1 r2)
  qed
  have returns: "(\<exists>solved. solve_basis (OPTIMAL, ?v) ?s = Inr solved) \<and>
      (distinct (map (\<lambda>(n, d, s). (d, s)) ?rota) \<and>
       length (remdups (map (\<lambda>(n, d, s). s) ?rota)) = length daily_shifts \<longrightarrow>
         (\<exists>solved. solve (OPTIMAL, ?v) ?s = Inr solved))"
    if sd: "start_day \<in> set days_of_week"
  proof -
    from sd fields have sd': "self_start_day ?s \<in> set days_of_week" by simp
    from solve_basis_optimal [OF sd', of ?v]
    obtain solved where sb: "solve_basis (OPTIMAL, ?v) ?s = Inr solved" by blast
    have "\<exists>solved. solve (OPTIMAL, ?v) ?s = Inr solved"
      if p: "distinct (map (\<lambda>(n, d, s). (d, s)) ?rota) \<and>
             length (remdups (map (\<lambda>(n, d, s). s) ?rota)) = length daily_shifts"
    proof -
      have sel: "self_shifts ?s = self_shifts self" "self_daily_shifts ?s = daily_shifts"
        by (simp_all add: fields)
      have d: "distinct (map (\<lambda>(n, d, s). (d, s))
                 (filter (value_is_1 ?v (self_shifts ?s)) (keys (self_shifts ?s))))"
        unfolding sel rota using p by blast
      have l: "length (remdups (map (\<lambda>(n, d, s). s)
                 (filter (value_is_1 ?v (self_shifts ?s)) (keys (self_shifts ?s)))))
               = length (self_daily_shifts ?s)"
        unfolding sel rota using p by blast
      have "solve (OPTIMAL, ?v) ?s = solve_basis (OPTIMAL, ?v) ?s"
        using sd' d l by (rule solve_rota_ok)
      with sb show ?thesis by simp
    qed
    with sb show ?thesis by blast
  qed
  have ret': "start_day \<in> set days_of_week \<longrightarrow>
      (\<exists>solved. solve_basis (OPTIMAL, ?v) ?s = Inr solved) \<and>
      (distinct (map (\<lambda>(n, d, s). (d, s)) ?rota) \<and>
       length (remdups (map (\<lambda>(n, d, s). s) ?rota)) = length daily_shifts \<longrightarrow>
         (\<exists>solved. solve (OPTIMAL, ?v) ?s = Inr solved))"
    by (rule impI) (rule returns)
  from inv have part1: "\<forall>c \<in> set (constraints model). \<forall>k r.
            dict_get (self_rest_days self) k = Inr r \<longrightarrow> r \<in> constraint_vars c \<longrightarrow>
              k \<in> coupled \<and>
              (\<exists>w. length (variables (self_model self)) \<le> w \<and> c = Constraint (VarEq r w) [])"
    by (simp add: dict_get_Inr)
  have dg: "dict_get (self_rest_days self) (nurse, day) = Inr r"
    using r by (simp add: dict_get_Inr)
  have rlt: "r < length (variables (self_model self))" using rs [OF r] by simp
  let ?P = "\<lambda>r. dict_get (self_rest_days self) (nurse, day) = Inr r \<and>
        r < length (variables (self_model self)) \<and>
        (\<forall>c \<in> set (constraints model). r \<notin> constraint_vars c) \<and>
        feasible (v(r := 1)) model \<and>
        filter (value_is_1 (v(r := 1)) (self_shifts self)) (keys (self_shifts self)) = ?rota \<and>
        (\<forall>k. k \<noteq> (nurse, day) \<longrightarrow>
             value_is_1 (v(r := 1)) (self_rest_days self) k =
             value_is_1 v (self_rest_days self) k) \<and>
        (nurse, day) \<in> set (filter (value_is_1 (v(r := 1)) (self_rest_days self))
                               (keys (self_rest_days self))) \<and>
        (\<forall>status solved.
             solve (status, v(r := 1)) ?s = Inr solved \<or>
             solve_basis (status, v(r := 1)) ?s = Inr solved \<longrightarrow>
               self_assigned_rests solved =
                 Some (filter (value_is_1 (v(r := 1)) (self_rest_days self))
                         (keys (self_rest_days self)))) \<and>
        (start_day \<in> set days_of_week \<longrightarrow>
           (\<exists>solved. solve_basis (OPTIMAL, v(r := 1)) ?s = Inr solved) \<and>
           (distinct (map (\<lambda>(n, d, s). (d, s)) ?rota) \<and>
            length (remdups (map (\<lambda>(n, d, s). s) ?rota)) = length daily_shifts \<longrightarrow>
              (\<exists>solved. solve (OPTIMAL, v(r := 1)) ?s = Inr solved)))"
  have "?P r"
    by (intro conjI dg rlt un f' rota others mem exact ret')
  then have "\<exists>r. ?P r"
    by (rule exI [of ?P r])
  with part1 show ?thesis by (rule conjI)
qed

lemma demo4_post_init:
  "post_init demo4_nurses [(0, ''ED Nights'')] 4 ''Monday'' = Inr demo4_self"
  by (simp add: post_init_def py_range0_def py_range_def shift_keys_def rest_keys_def
      Nurse_column_def keys_def CpModel_def NewBoolVar_def dict_set_def demo4_self_def
      demo4_nurses_def demo4_model_def demo4_shifts_def demo4_rest_days_def
      shift_name_def rest_name_def str_int_def str_nat.simps upt_rec)

lemma demo4_follow_keys:
  "set (rest_follow_keys demo4_nurses (py_range0 4) ''Monday'' 4 ''Monday'' 2) = {(1, 2), (1, 3)}"
  by (auto simp: rest_follow_keys_def is_block_start_def what_day_def days_of_week_def
      py_range0_def py_range_def demo4_nurses_def Nurse_column_def upt_rec)

theorem rest_day_unconstrained_witness:
  "post_init demo4_nurses [(0, ''ED Nights'')] 4 ''Monday'' = Inr demo4_self \<and>
   built (self_shifts demo4_self) (self_rest_days demo4_self) (self_model demo4_self)
     {(1, 2), (1, 3)} demo4_block \<and>
   (1, 0) \<in> set (keys (self_rest_days demo4_self)) \<and> (1, 0) \<notin> {(1::int, 2::int), (1, 3)} \<and>
   feasible demo4_worked demo4_block \<and> ''Monday'' \<in> set days_of_week \<and>
   filter (value_is_1 demo4_worked (self_shifts demo4_self)) (keys (self_shifts demo4_self))
     = [(1, 0, 0), (1, 1, 0)] \<and>
   dict_get (self_rest_days demo4_self) (1, 0) = Inr 4 \<and>
   feasible (demo4_worked(4 := 1)) demo4_block \<and>
   (\<exists>solved.
       solve (OPTIMAL, demo4_worked(4 := 1)) (demo4_self\<lparr>self_model := demo4_block\<rparr>)
         = Inr solved \<and>
       self_assigned_rests solved = Some [(1, 0), (1, 2), (1, 3)])"
proof -
  have sel: "self_shifts demo4_self = demo4_shifts" "self_rest_days demo4_self = demo4_rest_days"
      "self_model demo4_self = demo4_model"
    by (simp_all add: demo4_self_def)
  have "built demo4_shifts demo4_rest_days demo4_model
          ({} \<union> set (rest_follow_keys demo4_nurses (py_range0 4) ''Monday'' 4 ''Monday'' 2))
          demo4_block"
    by (rule built_assign_consecutive_shifts [OF built_start demo4_run])
  then have b: "built (self_shifts demo4_self) (self_rest_days demo4_self)
      (self_model demo4_self) {(1, 2), (1, 3)} demo4_block"
    by (simp add: sel demo4_follow_keys)
  have key: "(1, 0) \<in> set (keys (self_rest_days demo4_self))"
    by (simp add: sel demo4_rest_days_def keys_def)
  have free: "(1, 0) \<notin> {(1::int, 2::int), (1, 3)}" by simp
  have feas: "feasible demo4_worked demo4_block"
    by (simp add: feasible_def demo4_block_def demo4_model_def demo4_shifts_def
        demo4_rest_days_def demo4_worked_def keys_def compare_def upt_rec)
  have sd: "''Monday'' \<in> set days_of_week" by (simp add: days_of_week_def)
  have r4: "dict_get (self_rest_days demo4_self) (1, 0) = Inr 4"
    by (simp add: sel demo4_rest_days_def dict_get_def)
  have rota: "filter (value_is_1 demo4_worked (self_shifts demo4_self))
                (keys (self_shifts demo4_self)) = [(1, 0, 0), (1, 1, 0)]"
    by (simp add: sel demo4_shifts_def demo4_worked_def keys_def value_is_1_def)
  have rests: "filter (value_is_1 (demo4_worked(4 := 1)) (self_rest_days demo4_self))
                 (keys (self_rest_days demo4_self)) = [(1, 0), (1, 2), (1, 3)]"
    by (simp add: sel demo4_rest_days_def demo4_worked_def keys_def value_is_1_def)
  from rest_day_unconstrained [OF demo4_post_init b key free feas]
  obtain r where dg: "dict_get (self_rest_days demo4_self) (1, 0) = Inr r"
    and f: "feasible (demo4_worked(r := 1)) demo4_block"
    and ex: "\<forall>status solved.
        solve (status, demo4_worked(r := 1)) (demo4_self\<lparr>self_model := demo4_block\<rparr>)
          = Inr solved \<or>
        solve_basis (status, demo4_worked(r := 1)) (demo4_self\<lparr>self_model := demo4_block\<rparr>)
          = Inr solved \<longrightarrow>
          self_assigned_rests solved =
            Some (filter (value_is_1 (demo4_worked(r := 1)) (self_rest_days demo4_self))
                    (keys (self_rest_days demo4_self)))"
    and ret: "''Monday'' \<in> set days_of_week \<longrightarrow>
        (\<exists>solved. solve_basis (OPTIMAL, demo4_worked(r := 1))
                    (demo4_self\<lparr>self_model := demo4_block\<rparr>) = Inr solved) \<and>
        (distinct (map (\<lambda>(n, d, s). (d, s))
           (filter (value_is_1 demo4_worked (self_shifts demo4_self))
              (keys (self_shifts demo4_self)))) \<and>
         length (remdups (map (\<lambda>(n, d, s). s)
           (filter (value_is_1 demo4_worked (self_shifts demo4_self))
              (keys (self_shifts demo4_self)))))
           = length [(0::int, ''ED Nights'')] \<longrightarrow>
           (\<exists>solved. solve (OPTIMAL, demo4_worked(r := 1))
                       (demo4_self\<lparr>self_model := demo4_block\<rparr>) = Inr solved))"
    by (elim conjE exE) (rule that; assumption)
  from dg r4 have r: "r = 4" by simp
  have p: "distinct (map (\<lambda>(n, d, s). (d, s))
           (filter (value_is_1 demo4_worked (self_shifts demo4_self))
              (keys (self_shifts demo4_self)))) \<and>
         length (remdups (map (\<lambda>(n, d, s). s)
           (filter (value_is_1 demo4_worked (self_shifts demo4_self))
              (keys (self_shifts demo4_self)))))
           = length [(0::int, ''ED Nights'')]"
    unfolding rota by simp
  from ret sd p obtain solved where
    s: "solve (OPTIMAL, demo4_worked(4 := 1)) (demo4_self\<lparr>self_model := demo4_block\<rparr>)
          = Inr solved"
    unfolding r by blast
  with ex have ar: "self_assigned_rests solved = Some [(1, 0), (1, 2), (1, 3)]"
    unfolding r rests by blast
  note f4 = f [unfolded r]
  from s ar demo4_post_init b key free feas sd rota r4 f4 show ?thesis by blast
qed

end
